theory Spec2Isabelle
  imports Main "HOL-Library.Multiset"
begin

section \<open>repo2prompt: fetching a repository tree into one text document\<close>

text \<open>
  The repository holds two versions of the same pipeline:
  \<^item> \<^verbatim>\<open>repo2prompt_async.py\<close>, the simple version: one request per fetch, sub-directories
    walked one after the other, file contents collected in a side list;
  \<^item> \<^verbatim>\<open>repo2prompt_async_prd.py\<close>, the production version: fetches wrapped in a retry
    decorator, a Retry-After path, sub-directories walked as concurrent tasks, file
    contents placed inline under their tree line.
  Functions of the production version carry the suffix \<open>_prd\<close>; functions that are the
  same text in both files (\<open>parse_github_url\<close>, \<open>get_file_content\<close>) are modelled once.

  Everything outside the two files is a field of the record \<open>env\<close>: the HTTP session, the
  URL parser, the base64 decoder, the clock, the recursion limit of the interpreter and
  the choices of the event loop. Effects are explicit: every function that talks to the
  network takes the log of events so far (the \<open>world\<close>) and returns it extended.
  Exceptions are values (\<open>Inl\<close>); a call that never returns has the outcome \<open>None\<close>.
  Strings are lists of characters with code points below 256.
\<close>

subsection \<open>Exceptions\<close>

text \<open>
  The exception classes the two files raise or meet. \<open>ClientError\<close> is
  \<^verbatim>\<open>aiohttp.ClientError\<close>; \<open>ClientResponseError status message url\<close> is its subclass raised by
  \<^verbatim>\<open>response.raise_for_status()\<close>; \<open>TimeoutError\<close> is \<^verbatim>\<open>asyncio.TimeoutError\<close>; the others are
  built-in classes. All are subclasses of \<^verbatim>\<open>Exception\<close>, so \<^verbatim>\<open>except Exception\<close> catches each
  of them.
\<close>

datatype exn =
    ClientError string
  | ClientResponseError nat string string
  | TimeoutError string
  | ValueError string
  | TypeError string
  | KeyError string
  | UnboundLocalError string
  | RecursionError string
  | OverflowError string

subsection \<open>Strings\<close>

definition quote :: string where
  "quote = [CHR 0x27]"

definition newline :: string where
  "newline = [CHR 0x0A]"

definition fence :: string where
  "fence = ''```''"

definition digit_char :: "nat \<Rightarrow> char" where
  "digit_char d = char_of (48 + d)"

definition hex_digit :: "nat \<Rightarrow> char" where
  "hex_digit d = ''0123456789abcdef'' ! d"

text \<open>\<^verbatim>\<open>c.isprintable()\<close> for a character with a code point below 256.\<close>

definition printable :: "char \<Rightarrow> bool" where
  "printable c =
     (let n = (of_char c :: nat) in (32 \<le> n \<and> n < 127) \<or> (161 \<le> n \<and> n \<noteq> 173))"

text \<open>
  \<^verbatim>\<open>repr\<close> of a string. The string is put between apostrophes, or between double quotes
  when it holds an apostrophe and no double quote; the backslash and the enclosing quote
  are escaped, and so is every character that is not printable.
\<close>

definition escape :: "char \<Rightarrow> char \<Rightarrow> string" where
  "escape q c =
     (if c = CHR 0x5C then [CHR 0x5C, CHR 0x5C]
      else if c = q then [CHR 0x5C, c]
      else if c = CHR 0x09 then [CHR 0x5C, CHR ''t'']
      else if c = CHR 0x0A then [CHR 0x5C, CHR ''n'']
      else if c = CHR 0x0D then [CHR 0x5C, CHR ''r'']
      else if printable c then [c]
      else [CHR 0x5C, CHR ''x'', hex_digit (of_char c div 16), hex_digit (of_char c mod 16)])"

definition repr :: "string \<Rightarrow> string" where
  "repr s =
     (let q = (if CHR 0x27 \<in> set s \<and> CHR 0x22 \<notin> set s then CHR 0x22 else CHR 0x27)
      in q # concat (map (escape q) s) @ [q])"

text \<open>The decimal rendering of a number, as an f-string prints it.\<close>

fun str_nat :: "nat \<Rightarrow> string" where
  "str_nat n = (if n < 10 then [digit_char n] else str_nat (n div 10) @ [digit_char (n mod 10)])"

text \<open>\<^verbatim>\<open>s.strip(chars)\<close>: the characters of \<open>chars\<close> removed from both ends.\<close>

definition strip :: "string \<Rightarrow> string \<Rightarrow> string" where
  "strip chars s =
     rev (dropWhile (\<lambda>c. c \<in> set chars) (rev (dropWhile (\<lambda>c. c \<in> set chars) s)))"

text \<open>
  \<^verbatim>\<open>s.split(sep)\<close> for a separator of one character: empty pieces are kept, and the
  empty string splits into one empty piece.
\<close>

fun str_split :: "string \<Rightarrow> char \<Rightarrow> string list" where
  "str_split [] sep = [[]]"
| "str_split (c # cs) sep =
     (if c = sep then [] # str_split cs sep
      else (case str_split cs sep of
              [] \<Rightarrow> [[c]]
            | piece # pieces \<Rightarrow> (c # piece) # pieces))"

text \<open>\<^verbatim>\<open>s.endswith(suffixes)\<close> with a tuple of suffixes.\<close>

definition endswith :: "string \<Rightarrow> string list \<Rightarrow> bool" where
  "endswith s suffixes =
     list_ex (\<lambda>suf. length suf \<le> length s \<and> drop (length s - length suf) s = suf) suffixes"

text \<open>
  \<^verbatim>\<open>int(s)\<close> on a string, as CPython 3.11 computes it. White space around the literal is
  dropped, one sign is allowed, the digits may be grouped by single underscores. A
  literal of more than 4300 digits is refused before what follows it is looked at
  (\<^verbatim>\<open>sys.get_int_max_str_digits()\<close>). The message of an invalid literal shows the first 200
  characters of the \<^verbatim>\<open>repr\<close> of the string.
\<close>

definition whitespace :: string where
  "whitespace = map char_of [9, 10, 11, 12, 13, 32, 133, 160 :: nat]"

definition digit_val :: "char \<Rightarrow> nat option" where
  "digit_val c =
     (let n = (of_char c :: nat) in if 48 \<le> n \<and> n \<le> 57 then Some (n - 48) else None)"

definition literal_char :: "char \<Rightarrow> bool" where
  "literal_char c = (c = CHR ''_'' \<or> digit_val c \<noteq> None)"

fun doubled_underscore :: "string \<Rightarrow> bool" where
  "doubled_underscore (c # d # cs) =
     ((c = CHR ''_'' \<and> d = CHR ''_'') \<or> doubled_underscore (d # cs))"
| "doubled_underscore _ = False"

definition decimal :: "string \<Rightarrow> nat" where
  "decimal ds = foldl (\<lambda>acc c. 10 * acc + (of_char c - 48)) 0 ds"

definition int_max_str_digits :: nat where
  "int_max_str_digits = 4300"

definition invalid_literal :: "string \<Rightarrow> exn" where
  "invalid_literal s =
     ValueError (''invalid literal for int() with base 10: '' @ take 200 (repr s))"

definition exceeds_limit :: "nat \<Rightarrow> exn" where
  "exceeds_limit n =
     ValueError (''Exceeds the limit (4300 digits) for integer string conversion: value has '' @
                 str_nat n @
                 '' digits; use sys.set_int_max_str_digits() to increase the limit'')"

definition py_int :: "string \<Rightarrow> exn + int" where
  "py_int s =
     (let t = dropWhile (\<lambda>c. c \<in> set whitespace) s;
          negative = (t \<noteq> [] \<and> hd t = CHR ''-'');
          unsigned = (if t \<noteq> [] \<and> (hd t = CHR ''-'' \<or> hd t = CHR ''+'') then tl t else t);
          literal = takeWhile literal_char unsigned;
          rest = dropWhile literal_char unsigned;
          ds = filter (\<lambda>c. c \<noteq> CHR ''_'') literal
      in if literal = [] \<or> hd literal = CHR ''_'' \<or> last literal = CHR ''_'' \<or>
            doubled_underscore literal
         then Inl (invalid_literal s)
         else if int_max_str_digits < length ds then Inl (exceeds_limit (length ds))
         else if list_ex (\<lambda>c. c \<notin> set whitespace) rest then Inl (invalid_literal s)
         else Inr (if negative then - int (decimal ds) else int (decimal ds)))"

text \<open>
  An integer that Python cannot convert to a float (\<^verbatim>\<open>OverflowError\<close>): its magnitude
  rounds to \<open>2 ^ 1024\<close> or more.
\<close>

definition float_overflow :: "int \<Rightarrow> bool" where
  "float_overflow n = (2 ^ 1024 - 2 ^ 970 \<le> \<bar>n\<bar>)"

definition too_large :: exn where
  "too_large = OverflowError ''int too large to convert to float''"

text \<open>\<^verbatim>\<open>str(e)\<close>, the text an f-string prints for an exception.\<close>

fun str_exn :: "exn \<Rightarrow> string" where
  "str_exn (ClientError msg) = msg"
| "str_exn (ClientResponseError st msg u) =
     str_nat st @ '', message='' @ repr msg @ '', url='' @ repr u"
| "str_exn (TimeoutError msg) = msg"
| "str_exn (ValueError msg) = msg"
| "str_exn (TypeError msg) = msg"
| "str_exn (KeyError k) = repr k"
| "str_exn (UnboundLocalError msg) = msg"
| "str_exn (RecursionError msg) = msg"
| "str_exn (OverflowError msg) = msg"

subsection \<open>The remote interface\<close>

text \<open>
  The decoded JSON bodies of the two endpoints, as the code reads them: a directory
  listing (\<^verbatim>\<open>item["name"]\<close>, \<^verbatim>\<open>item["path"]\<close>, \<^verbatim>\<open>item["type"]\<close>), a file object
  (\<^verbatim>\<open>file_info["encoding"]\<close>, \<^verbatim>\<open>file_info["content"]\<close>) and the rate-limit object
  (\<^verbatim>\<open>rate_limit_data["rate"]\<close> with \<^verbatim>\<open>remaining\<close>, \<^verbatim>\<open>limit\<close>, \<^verbatim>\<open>reset\<close>). \<open>Null\<close> is Python's
  \<^verbatim>\<open>None\<close>. Reading a body of the wrong shape raises, as it does in Python.
\<close>

record item =
  item_name :: string
  item_path :: string
  item_type :: string

record file_info =
  encoding :: string
  content :: string

record rate =
  remaining :: int
  limit :: int
  reset :: int

datatype json = Listing "item list" | FileInfo file_info | RateLimit rate | Null

record request =
  url :: string
  headers :: "(string \<times> string) list"

text \<open>
  What the code reads of a response: \<^verbatim>\<open>response.status\<close>,
  \<^verbatim>\<open>response.headers.get("Retry-After", None)\<close>, \<^verbatim>\<open>response.reason\<close> and the result of
  \<^verbatim>\<open>await response.json()\<close> (which may raise).
\<close>

record response =
  status :: nat
  retry_after :: "string option"
  reason :: string
  json_body :: "exn + json"

datatype http_outcome = Responds response | Fails exn

record parse_result =
  url_scheme :: string
  url_netloc :: string
  url_path :: string
  url_params :: string
  url_query :: string
  url_fragment :: string

text \<open>
  The log of what a run did to the outside: requests sent, \<^verbatim>\<open>asyncio.sleep\<close> calls of the
  two files (with their duration in seconds), and the waits of the retry decorator
  (whose random duration is not modelled).
\<close>

datatype event = Request request | Sleep int | Backoff

type_synonym world = "event list"

text \<open>
  \<open>sched w n\<close> is the order in which the event loop completes \<open>n\<close> tasks that were
  created when the log of the run was \<open>w\<close>, as a list of handles; the handle of a task is
  its position among the \<open>n\<close>.
\<close>

type_synonym scheduler = "world \<Rightarrow> nat \<Rightarrow> nat list"

text \<open>
  The environment.
  \<^item> \<open>http_get r n\<close> is what \<^verbatim>\<open>session.get\<close> gives for request \<open>r\<close> when \<open>n\<close> requests equal to
    \<open>r\<close> were sent before.
  \<^item> \<open>urlparse\<close> is \<^verbatim>\<open>urllib.parse.urlparse\<close>, which raises \<^verbatim>\<open>ValueError\<close> on some locators.
  \<^item> \<open>b64decode_utf8 s\<close> is \<^verbatim>\<open>base64.b64decode(s).decode("utf-8")\<close>.
  \<^item> \<open>time_now\<close> is \<^verbatim>\<open>time.time()\<close>, in whole seconds.
  \<^item> \<open>recursion_limit\<close> is the number of nested invocations of the production
    \<^verbatim>\<open>fetch_repo_content\<close> that the recursion limit of the interpreter allows to a call made
    by \<^verbatim>\<open>build_directory_tree\<close> or \<^verbatim>\<open>retrieve_github_repo_info\<close>; \<open>recursion_message\<close> is the
    message of the \<^verbatim>\<open>RecursionError\<close> raised beyond the limit, which names the kind of call in
    which the limit was hit.
  \<^item> \<open>gather_order\<close> is the event loop's choice for the coroutines of an \<^verbatim>\<open>asyncio.gather\<close>
    call of the simple version.
\<close>

record env =
  http_get :: "request \<Rightarrow> nat \<Rightarrow> http_outcome"
  urlparse :: "string \<Rightarrow> exn + parse_result"
  b64decode_utf8 :: "string \<Rightarrow> exn + string"
  time_now :: int
  recursion_limit :: nat
  recursion_message :: string
  gather_order :: scheduler

text \<open>The outcome of a call that may not return: \<open>None\<close> when it does not.\<close>

type_synonym 'a outcome = "(exn + 'a) option"

definition session_get :: "env \<Rightarrow> request \<Rightarrow> world \<Rightarrow> http_outcome \<times> world" where
  "session_get e r w = (http_get e r (count_list w (Request r)), w @ [Request r])"

subsection \<open>parse_github_url (both files)\<close>

definition parse_github_url :: "env \<Rightarrow> string \<Rightarrow> exn + string \<times> string" where
  "parse_github_url e u =
     (case urlparse e u of
        Inl x \<Rightarrow> Inl x
      | Inr parsed_url \<Rightarrow>
          (let path_segments = str_split (strip ''/'' (url_path parsed_url)) CHR ''/''
           in if length path_segments \<ge> 2 then Inr (path_segments ! 0, path_segments ! 1)
              else Inl (ValueError ''Invalid GitHub URL provided!'')))"

subsection \<open>fetch_repo_content\<close>

definition contents_request :: "string \<Rightarrow> string \<Rightarrow> string \<Rightarrow> string option \<Rightarrow> request" where
  "contents_request owner repo path token =
     \<lparr>url = ''https://api.github.com/repos/'' @ owner @ ''/'' @ repo @ ''/contents/'' @ path,
      headers =
        (''Accept'', ''application/vnd.github.v3+json'') #
        (case token of
           None \<Rightarrow> []
         | Some t \<Rightarrow> if t = [] then [] else [(''Authorization'', ''Bearer '' @ t)])\<rparr>"

text \<open>
  \<^verbatim>\<open>response.raise_for_status()\<close> raises for a status of 400 and above; below, it returns
  and the function falls off its end, returning \<^verbatim>\<open>None\<close>.
\<close>

definition raise_for_status :: "request \<Rightarrow> response \<Rightarrow> exn + json" where
  "raise_for_status r resp =
     (if 400 \<le> status resp then Inl (ClientResponseError (status resp) (reason resp) (url r))
      else Inr Null)"

text \<open>The simple version: one request, no retry.\<close>

definition fetch_repo_content ::
  "env \<Rightarrow> string \<Rightarrow> string \<Rightarrow> string \<Rightarrow> string option \<Rightarrow> world \<Rightarrow> (exn + json) \<times> world" where
  "fetch_repo_content e owner repo path token w =
     (let r = contents_request owner repo path token in
      case session_get e r w of
        (Fails x, w1) \<Rightarrow> (Inl x, w1)
      | (Responds resp, w1) \<Rightarrow>
          if status resp = 200 then (json_body resp, w1)
          else (raise_for_status r resp, w1))"

text \<open>
  The exceptions the decorator of the production version retries:
  \<^verbatim>\<open>(aiohttp.ClientError, asyncio.TimeoutError)\<close>, subclasses included.
\<close>

fun transport_fault :: "exn \<Rightarrow> bool" where
  "transport_fault (ClientError _) = True"
| "transport_fault (ClientResponseError _ _ _) = True"
| "transport_fault (TimeoutError _) = True"
| "transport_fault _ = False"

text \<open>
  Modelled from the spec: the decorator \<^verbatim>\<open>backoff.on_exception(backoff.expo, exceptions,
  max_tries=n)\<close> of the third-party library \<^verbatim>\<open>backoff\<close>, which is not in the repository.
  It calls the function; an exception of one of the listed classes is retried after a
  wait, until the call returns or \<open>n\<close> calls were made, and the exception of the last
  call is raised; any other exception is raised at once. \<open>retry_loop k\<close> is the loop with
  \<open>k\<close> retries left.
\<close>

primrec retry_loop ::
  "(exn \<Rightarrow> bool) \<Rightarrow> nat \<Rightarrow> (world \<Rightarrow> 'a outcome \<times> world) \<Rightarrow> world \<Rightarrow> 'a outcome \<times> world" where
  "retry_loop retried 0 target w = target w"
| "retry_loop retried (Suc k) target w =
     (case target w of
        (Some (Inl x), w1) \<Rightarrow>
          if retried x then retry_loop retried k target (w1 @ [Backoff])
          else (Some (Inl x), w1)
      | (Some (Inr v), w1) \<Rightarrow> (Some (Inr v), w1)
      | (None, w1) \<Rightarrow> (None, w1))"

definition on_exception ::
  "(exn \<Rightarrow> bool) \<Rightarrow> nat \<Rightarrow> (world \<Rightarrow> 'a outcome \<times> world) \<Rightarrow> world \<Rightarrow> 'a outcome \<times> world" where
  "on_exception retried max_tries target = retry_loop retried (max_tries - 1) target"

definition rate_limit_exceeded :: "nat \<Rightarrow> exn" where
  "rate_limit_exceeded st =
     ClientError (''Rate limit exceeded with status '' @ str_nat st @
                  ''. No Retry-After header provided.'')"

text \<open>
  The body of the production \<^verbatim>\<open>fetch_repo_content\<close>, one call of it. \<open>again\<close> is the
  decorated function itself, which the Retry-After path calls with the same arguments.
  \<^verbatim>\<open>asyncio.sleep\<close> converts a positive delay to a float, and raises when it cannot.
\<close>

definition fetch_attempt_prd ::
  "(world \<Rightarrow> json outcome \<times> world) \<Rightarrow> env \<Rightarrow> request \<Rightarrow> world \<Rightarrow> json outcome \<times> world" where
  "fetch_attempt_prd again e r w =
     (case session_get e r w of
        (Fails x, w1) \<Rightarrow> (Some (Inl x), w1)
      | (Responds resp, w1) \<Rightarrow>
          if status resp = 200 then (Some (json_body resp), w1)
          else if status resp = 403 \<or> status resp = 429 then
            (case retry_after resp of
               None \<Rightarrow> (Some (Inl (rate_limit_exceeded (status resp))), w1)
             | Some v \<Rightarrow>
                 if v = [] then (Some (Inl (rate_limit_exceeded (status resp))), w1)
                 else (case py_int v of
                         Inl x \<Rightarrow> (Some (Inl x), w1)
                       | Inr secs \<Rightarrow>
                           if 0 < secs \<and> float_overflow secs then (Some (Inl too_large), w1)
                           else again (w1 @ [Sleep secs])))
          else if status resp = 404 then (Some (Inl (ClientError ''Resource not found.'')), w1)
          else (Some (raise_for_status r resp), w1))"

text \<open>
  The decorated function. The Retry-After path calls it from inside its own body, so
  each re-invocation is nested in the one before, decorator included. The code sets no
  bound on the nesting; the interpreter does: \<open>fuel\<close> is the number of nested invocations
  its recursion limit still allows, and an invocation with none left raises
  \<^verbatim>\<open>RecursionError\<close>. Where in that invocation the limit is hit depends on the libraries;
  the model lets it raise on entry.
\<close>

definition recursion_error :: "env \<Rightarrow> exn" where
  "recursion_error e = RecursionError (recursion_message e)"

primrec fetch_repo_content_prd ::
  "nat \<Rightarrow> env \<Rightarrow> string \<Rightarrow> string \<Rightarrow> string \<Rightarrow> string option \<Rightarrow> world \<Rightarrow> json outcome \<times> world" where
  "fetch_repo_content_prd 0 e owner repo path token w = (Some (Inl (recursion_error e)), w)"
| "fetch_repo_content_prd (Suc fuel) e owner repo path token w =
     on_exception transport_fault 8
       (fetch_attempt_prd (fetch_repo_content_prd fuel e owner repo path token) e
          (contents_request owner repo path token)) w"

subsection \<open>get_file_content (both files)\<close>

definition get_file_content :: "env \<Rightarrow> json \<Rightarrow> exn + string" where
  "get_file_content e info =
     (case info of
        FileInfo fi \<Rightarrow>
          if encoding fi = ''base64'' then b64decode_utf8 e (content fi) else Inr (content fi)
      | Listing _ \<Rightarrow> Inl (TypeError ''list indices must be integers or slices, not str'')
      | RateLimit _ \<Rightarrow> Inl (KeyError ''encoding'')
      | Null \<Rightarrow> Inl (TypeError (quote @ ''NoneType'' @ quote @ '' object is not subscriptable'')))"

subsection \<open>build_directory_tree\<close>

text \<open>\<^verbatim>\<open>".github" in item["path"].split("/")\<close>\<close>

definition excluded :: "string \<Rightarrow> bool" where
  "excluded path = (''.github'' \<in> set (str_split path CHR ''/''))"

definition allowed_extensions :: "string list" where
  "allowed_extensions =
     [''.py'', ''.ipynb'', ''.html'', ''.css'', ''.js'', ''.jsx'', ''.rst'', ''.md'']"

text \<open>\<^verbatim>\<open>"    " * indent\<close>\<close>

definition indentation :: "nat \<Rightarrow> string" where
  "indentation indent = concat (replicate indent ''    '')"

definition dir_line :: "nat \<Rightarrow> item \<Rightarrow> string" where
  "dir_line indent it = indentation indent @ ''['' @ item_name it @ ''/]'' @ newline"

definition file_line :: "nat \<Rightarrow> item \<Rightarrow> string" where
  "file_line indent it = indentation indent @ item_name it @ newline"

text \<open>What iterating over a body that is not a list raises.\<close>

definition not_a_listing :: "json \<Rightarrow> exn" where
  "not_a_listing body =
     (case body of
        Null \<Rightarrow> TypeError (quote @ ''NoneType'' @ quote @ '' object is not iterable'')
      | _ \<Rightarrow> TypeError (''string indices must be integers, not '' @ quote @ ''str'' @ quote))"

subsubsection \<open>The simple version\<close>

text \<open>
  The \<^verbatim>\<open>for item in items\<close> loop of the simple version. \<open>walk\<close> is the recursive call
  \<^verbatim>\<open>build_directory_tree(session, owner, repo, item["path"], token, indent + 1)\<close>, awaited
  on the spot; of its result the tree text is kept and the file contents are dropped
  (\<^verbatim>\<open>sub_tree_str, _ = ...\<close>). \<open>file_fetch_tasks\<close> holds the paths of the content fetches
  the loop has created and not yet started.
\<close>

fun walk_items ::
  "(string \<Rightarrow> nat \<Rightarrow> world \<Rightarrow> (string \<times> string list) outcome \<times> world) \<Rightarrow> nat \<Rightarrow> item list \<Rightarrow>
   string \<Rightarrow> string list \<Rightarrow> world \<Rightarrow> (string \<times> string list) outcome \<times> world" where
  "walk_items walk indent [] tree_str file_fetch_tasks w =
     (Some (Inr (tree_str, file_fetch_tasks)), w)"
| "walk_items walk indent (it # items) tree_str file_fetch_tasks w =
     (if excluded (item_path it) then walk_items walk indent items tree_str file_fetch_tasks w
      else if item_type it = ''dir'' then
        (case walk (item_path it) (indent + 1) w of
           (Some (Inr (sub_tree_str, _)), w1) \<Rightarrow>
             walk_items walk indent items (tree_str @ dir_line indent it @ sub_tree_str)
               file_fetch_tasks w1
         | (Some (Inl x), w1) \<Rightarrow> (Some (Inl x), w1)
         | (None, w1) \<Rightarrow> (None, w1))
      else if endswith (item_name it) allowed_extensions then
        walk_items walk indent items (tree_str @ file_line indent it)
          (file_fetch_tasks @ [item_path it]) w
      else walk_items walk indent items (tree_str @ file_line indent it) file_fetch_tasks w)"

text \<open>
  \<^verbatim>\<open>asyncio.gather(*coros)\<close>: the coroutines are started in the order of the list (a fetch
  of the simple version sends its one request when it starts) and complete in an order
  the event loop chooses. The results come in the order of the arguments; when
  coroutines raise, \<^verbatim>\<open>gather\<close> raises the exception of the one that completes first.
  \<open>order\<close> is the order of completion, as a list of positions; a position it does not
  list completes after the listed ones.
\<close>

fun run_all :: "(world \<Rightarrow> (exn + 'a) \<times> world) list \<Rightarrow> world \<Rightarrow> (exn + 'a) list \<times> world" where
  "run_all [] w = ([], w)"
| "run_all (c # cs) w =
     (case c w of (r, w1) \<Rightarrow> (case run_all cs w1 of (rs, w2) \<Rightarrow> (r # rs, w2)))"

fun collect :: "(exn + 'a) list \<Rightarrow> exn + 'a list" where
  "collect [] = Inr []"
| "collect (Inl x # rs) = Inl x"
| "collect (Inr v # rs) = (case collect rs of Inl x \<Rightarrow> Inl x | Inr vs \<Rightarrow> Inr (v # vs))"

definition first_raised :: "nat list \<Rightarrow> (exn + 'a) list \<Rightarrow> exn option" where
  "first_raised order rs =
     (case filter (\<lambda>h. h < length rs \<and> isl (rs ! h)) (order @ [0..<length rs]) of
        [] \<Rightarrow> None
      | h # _ \<Rightarrow> Some (projl (rs ! h)))"

definition gather ::
  "nat list \<Rightarrow> (world \<Rightarrow> (exn + 'a) \<times> world) list \<Rightarrow> world \<Rightarrow> (exn + 'a list) \<times> world" where
  "gather order coros w =
     (case run_all coros w of
        (rs, w1) \<Rightarrow>
          (case first_raised order rs of
             Some x \<Rightarrow> (Inl x, w1)
           | None \<Rightarrow> (collect rs, w1)))"

text \<open>
  The function calls itself from inside its own body (line 45), so the walk of a
  directory is nested in the walks of the directories above it: \<open>fuel\<close> is the number of
  nested calls the recursion limit of the interpreter still allows.
\<close>

primrec build_directory_tree ::
  "nat \<Rightarrow> env \<Rightarrow> string \<Rightarrow> string \<Rightarrow> string \<Rightarrow> string option \<Rightarrow> nat \<Rightarrow> world \<Rightarrow>
   (string \<times> string list) outcome \<times> world" where
  "build_directory_tree 0 e owner repo path token indent w = (Some (Inl (recursion_error e)), w)"
| "build_directory_tree (Suc fuel) e owner repo path token indent w =
     (case fetch_repo_content e owner repo path token w of
        (Inl x, w1) \<Rightarrow> (Some (Inl x), w1)
      | (Inr (Listing items), w1) \<Rightarrow>
          (case walk_items (\<lambda>p i. build_directory_tree fuel e owner repo p token i)
                  indent items [] [] w1 of
             (Some (Inr (tree_str, file_fetch_tasks)), w2) \<Rightarrow>
               (case gather (gather_order e w2 (length file_fetch_tasks))
                       (map (\<lambda>p. fetch_repo_content e owner repo p token) file_fetch_tasks) w2 of
                  (Inl x, w3) \<Rightarrow> (Some (Inl x), w3)
                | (Inr file_contents, w3) \<Rightarrow>
                    (case collect (map (get_file_content e) file_contents) of
                       Inl x \<Rightarrow> (Some (Inl x), w3)
                     | Inr file_contents_decoded \<Rightarrow>
                         (Some (Inr (tree_str, file_contents_decoded)), w3)))
           | (Some (Inl x), w2) \<Rightarrow> (Some (Inl x), w2)
           | (None, w2) \<Rightarrow> (None, w2))
      | (Inr body, w1) \<Rightarrow> (Some (Inl (not_a_listing body)), w1))"

subsubsection \<open>The production version\<close>

text \<open>
  A task created by \<^verbatim>\<open>asyncio.create_task(build_directory_tree(..., item["path"], token,
  indent + 1))\<close>: the path and the indent it was created with. Its handle is its position
  in the list \<^verbatim>\<open>tasks\<close>.
\<close>

type_synonym task = "string \<times> nat"

text \<open>
  The \<^verbatim>\<open>for item in items\<close> loop of the production version. A directory adds its line and
  a task; an allow-listed file is fetched inside \<^verbatim>\<open>async with semaphore\<close> and its content
  is added under its line. \<open>semaphore\<close> is the value of the semaphore when the loop asks
  for it: at 0 the loop waits for a release. The result is how the loop ends (the tree
  text, an exception, or no end) and the tasks it has created until then: a task is not
  cancelled when the loop that created it raises.
\<close>

fun walk_items_prd ::
  "(string \<Rightarrow> world \<Rightarrow> json outcome \<times> world) \<Rightarrow> env \<Rightarrow> nat \<Rightarrow> nat \<Rightarrow> item list \<Rightarrow>
   string \<Rightarrow> task list \<Rightarrow> world \<Rightarrow> (string outcome \<times> task list) \<times> world" where
  "walk_items_prd fetch e semaphore indent [] tree_str tasks w = ((Some (Inr tree_str), tasks), w)"
| "walk_items_prd fetch e semaphore indent (it # items) tree_str tasks w =
     (if excluded (item_path it) then walk_items_prd fetch e semaphore indent items tree_str tasks w
      else if item_type it = ''dir'' then
        walk_items_prd fetch e semaphore indent items (tree_str @ dir_line indent it)
          (tasks @ [(item_path it, indent + 1)]) w
      else if endswith (item_name it) allowed_extensions then
        (if semaphore = 0 then ((None, tasks), w)
         else
           (case fetch (item_path it) w of
              (Some (Inr info), w1) \<Rightarrow>
                (case get_file_content e info of
                   Inr file_content \<Rightarrow>
                     walk_items_prd fetch e semaphore indent items
                       (tree_str @ file_line indent it @
                        indentation (indent + 1) @ fence @ file_content @ fence @ newline)
                       tasks w1
                 | Inl x \<Rightarrow> ((Some (Inl x), tasks), w1))
            | (Some (Inl x), w1) \<Rightarrow> ((Some (Inl x), tasks), w1)
            | (None, w1) \<Rightarrow> ((None, tasks), w1)))
      else walk_items_prd fetch e semaphore indent items (tree_str @ file_line indent it) tasks w)"

text \<open>
  Lines 81 to 107 of \<^verbatim>\<open>build_directory_tree\<close>: the fetch of the listing and the loop over
  it, up to the point where the function starts to wait for its tasks. This is the part
  of an invocation that sends requests and creates tasks.
\<close>

definition directory_loop_prd ::
  "env \<Rightarrow> nat \<Rightarrow> string \<Rightarrow> string \<Rightarrow> string \<Rightarrow> string option \<Rightarrow> nat \<Rightarrow> world \<Rightarrow>
   (string outcome \<times> task list) \<times> world" where
  "directory_loop_prd e semaphore owner repo path token indent w =
     (case fetch_repo_content_prd (recursion_limit e) e owner repo path token w of
        (None, w1) \<Rightarrow> ((None, []), w1)
      | (Some (Inl x), w1) \<Rightarrow> ((Some (Inl x), []), w1)
      | (Some (Inr (Listing items)), w1) \<Rightarrow>
          walk_items_prd (\<lambda>p. fetch_repo_content_prd (recursion_limit e) e owner repo p token)
            e semaphore indent items [] [] w1
      | (Some (Inr body), w1) \<Rightarrow> ((Some (Inl (not_a_listing body)), []), w1))"

text \<open>
  The event loop. The tasks a walk has created run concurrently with the loop that
  created them and with each other; which of them completes first is the event loop's
  choice. The model runs them to completion one after the other, in the order \<open>order\<close>
  (a list of handles), once the loop that created them is over, and keeps each result
  under its handle. A handle that is not in \<open>order\<close> is a task that never completes.
  In a run the tasks start in the order of their creation, as soon as the loop that
  created them waits, and their events interleave; the log of the model lists the events
  task by task instead, so the place of an event among the events of other tasks says
  nothing about a run. What a task sends, whatever the other tasks do, is stated on
  \<open>directory_loop_prd\<close>, for every session and every log.
\<close>

fun run_tasks ::
  "(task \<Rightarrow> world \<Rightarrow> string outcome \<times> world) \<Rightarrow> task list \<Rightarrow> nat list \<Rightarrow>
   (nat \<rightharpoonup> string outcome) \<Rightarrow> world \<Rightarrow> (nat \<rightharpoonup> string outcome) \<times> world" where
  "run_tasks run tasks [] completed w = (completed, w)"
| "run_tasks run tasks (h # order) completed w =
     (if h < length tasks \<and> completed h = None then
        (case run (tasks ! h) w of
           (r, w1) \<Rightarrow> run_tasks run tasks order (completed(h \<mapsto> r)) w1)
      else run_tasks run tasks order completed w)"

text \<open>\<^verbatim>\<open>for task in tasks: tree_str += await task\<close>, the handles in the order of creation.\<close>

fun await_tasks :: "(nat \<rightharpoonup> string outcome) \<Rightarrow> nat list \<Rightarrow> string \<Rightarrow> string outcome" where
  "await_tasks completed [] tree_str = Some (Inr tree_str)"
| "await_tasks completed (h # handles) tree_str =
     (case completed h of
        None \<Rightarrow> None
      | Some None \<Rightarrow> None
      | Some (Some (Inl x)) \<Rightarrow> Some (Inl x)
      | Some (Some (Inr sub_tree_str)) \<Rightarrow> await_tasks completed handles (tree_str @ sub_tree_str))"

text \<open>
  The whole function. Each task runs on a stack of its own, so the nesting of the
  directories is not bounded by the recursion limit; \<open>fuel\<close> is the depth to which the
  model follows the tasks, and a walk that goes deeper has no result. The tasks run
  whether the loop has ended with the tree text or not; only in the first case does the
  function wait for them (lines 109 and 110).
\<close>

primrec build_directory_tree_prd ::
  "nat \<Rightarrow> env \<Rightarrow> scheduler \<Rightarrow> nat \<Rightarrow> string \<Rightarrow> string \<Rightarrow> string \<Rightarrow> string option \<Rightarrow> nat \<Rightarrow> world \<Rightarrow>
   string outcome \<times> world" where
  "build_directory_tree_prd 0 e sched semaphore owner repo path token indent w = (None, w)"
| "build_directory_tree_prd (Suc fuel) e sched semaphore owner repo path token indent w =
     (case directory_loop_prd e semaphore owner repo path token indent w of
        ((r, tasks), w2) \<Rightarrow>
          (case run_tasks
                  (\<lambda>(p, i). build_directory_tree_prd fuel e sched semaphore owner repo p token i)
                  tasks (sched w2 (length tasks)) Map.empty w2 of
             (completed, w3) \<Rightarrow>
               (case r of
                  Some (Inr tree_str) \<Rightarrow> (await_tasks completed [0..<length tasks] tree_str, w3)
                | Some (Inl x) \<Rightarrow> (Some (Inl x), w3)
                | None \<Rightarrow> (None, w3))))"

text \<open>
  The invocations of the production \<^verbatim>\<open>build_directory_tree\<close> that a walk started with the
  path and indent \<open>root\<close> can bring about: the first one, and every task that one of them
  creates, whatever the session answers to it, whatever the semaphore holds and whatever
  the log holds when it runs. In a run, what the session answers to a task depends on
  what the other tasks have sent before. Every such run of a task is among the ones taken
  here: whatever answers the task receives one after the other, there is a session that
  gives it these answers when it runs from the empty log. A task that is cancelled, or
  that waits for ever, has sent and created a part of what it sends and creates when it
  goes on.
\<close>

inductive invoked :: "string \<Rightarrow> string \<Rightarrow> string option \<Rightarrow> task \<Rightarrow> task \<Rightarrow> bool"
  for owner repo token root where
  first: "invoked owner repo token root root"
| created:
    "invoked owner repo token root parent \<Longrightarrow>
     child \<in> set (snd (fst (directory_loop_prd e semaphore owner repo
                               (fst parent) token (snd parent) w))) \<Longrightarrow>
     invoked owner repo token root child"

text \<open>
  The logs of a production walk started with the path and indent \<open>root\<close>, under every
  event loop: a log grows by an event that one of the invocations of the walk adds to
  some log \<open>w0\<close> it starts from. The log of every run is among them, at every moment of
  the run; neither the order of the events nor their number is constrained, so there are
  others too.
\<close>

inductive walk_log_prd :: "string \<Rightarrow> string \<Rightarrow> string option \<Rightarrow> task \<Rightarrow> world \<Rightarrow> bool"
  for owner repo token root where
  nothing_sent: "walk_log_prd owner repo token root []"
| sent:
    "walk_log_prd owner repo token root w \<Longrightarrow>
     invoked owner repo token root tk \<Longrightarrow>
     ev \<in> set (snd (directory_loop_prd e semaphore owner repo (fst tk) token (snd tk) w0)) \<Longrightarrow>
     ev \<notin> set w0 \<Longrightarrow>
     walk_log_prd owner repo token root (w @ [ev])"

subsection \<open>retrieve_github_repo_info\<close>

definition readme_block :: "string \<Rightarrow> string" where
  "readme_block readme_content =
     ''README.md:'' @ newline @ fence @ newline @ readme_content @ newline @ fence @ newline @ newline"

definition readme_fallback :: string where
  "readme_fallback = ''README.md: Not found or error fetching README'' @ newline @ newline"

definition content_block :: "string \<Rightarrow> string" where
  "content_block file_content = newline @ fence @ file_content @ fence @ newline"

subsubsection \<open>The simple version\<close>

text \<open>
  The README step is inside \<^verbatim>\<open>try ... except Exception\<close>; the call of
  \<^verbatim>\<open>build_directory_tree\<close> is not, so what it raises leaves the function.
\<close>

definition retrieve_github_repo_info ::
  "nat \<Rightarrow> env \<Rightarrow> string \<Rightarrow> string option \<Rightarrow> world \<Rightarrow> string outcome \<times> world" where
  "retrieve_github_repo_info fuel e u token w =
     (case parse_github_url e u of
        Inl x \<Rightarrow> (Some (Inl x), w)
      | Inr (owner, repo) \<Rightarrow>
          (case fetch_repo_content e owner repo ''README.md'' token w of
             (r, w1) \<Rightarrow>
               (let formatted_string =
                      (case r of
                         Inl x \<Rightarrow> readme_fallback
                       | Inr readme_info \<Rightarrow>
                           (case get_file_content e readme_info of
                              Inl x \<Rightarrow> readme_fallback
                            | Inr readme_content \<Rightarrow> readme_block readme_content))
                in case build_directory_tree fuel e owner repo [] token 0 w1 of
                     (Some (Inr (directory_tree, file_contents)), w2) \<Rightarrow>
                       (Some (Inr (formatted_string @
                                   ''Directory Structure:'' @ newline @ directory_tree @ newline @
                                   concat (map content_block file_contents))), w2)
                   | (Some (Inl x), w2) \<Rightarrow> (Some (Inl x), w2)
                   | (None, w2) \<Rightarrow> (None, w2))))"

subsubsection \<open>The production version\<close>

definition rate_limit_request :: "string \<Rightarrow> request" where
  "rate_limit_request token =
     \<lparr>url = ''https://api.github.com/rate_limit'',
      headers = [(''Authorization'', ''Bearer '' @ token)]\<rparr>"

definition rate_limit_attempt :: "env \<Rightarrow> string \<Rightarrow> world \<Rightarrow> rate outcome \<times> world" where
  "rate_limit_attempt e token w =
     (case session_get e (rate_limit_request token) w of
        (Fails x, w1) \<Rightarrow> (Some (Inl x), w1)
      | (Responds resp, w1) \<Rightarrow>
          (case json_body resp of
             Inl x \<Rightarrow> (Some (Inl x), w1)
           | Inr (RateLimit rt) \<Rightarrow> (Some (Inr rt), w1)
           | Inr (FileInfo _) \<Rightarrow> (Some (Inl (KeyError ''rate'')), w1)
           | Inr (Listing _) \<Rightarrow>
               (Some (Inl (TypeError ''list indices must be integers or slices, not str'')), w1)
           | Inr Null \<Rightarrow>
               (Some (Inl (TypeError (quote @ ''NoneType'' @ quote @
                                      '' object is not subscriptable''))), w1)))"

definition fetch_rate_limit_status :: "env \<Rightarrow> string \<Rightarrow> world \<Rightarrow> rate outcome \<times> world" where
  "fetch_rate_limit_status e token = on_exception transport_fault 8 (rate_limit_attempt e token)"

text \<open>
  The body of the first \<^verbatim>\<open>try\<close>: the rate check (with a token), the creation of the
  semaphore, the README fetch. The result is the binding of the local variable
  \<^verbatim>\<open>semaphore\<close> when the block is left (\<open>None\<close>: never assigned) and the README text or the
  exception that ended the block. \<^verbatim>\<open>reset_time - now\<close> converts the reset time to a float,
  and raises when it cannot; the clock is a float, so a reset time that is too large for
  one is later than the clock.
\<close>

definition readme_step_prd ::
  "env \<Rightarrow> string \<Rightarrow> string \<Rightarrow> string option \<Rightarrow> world \<Rightarrow> (nat option \<times> string outcome) \<times> world" where
  "readme_step_prd e owner repo token w =
     (case token of
        None \<Rightarrow>
          ((Some 100, Some (Inl (ValueError ''Token is required for fetching repo content.''))), w)
      | Some t \<Rightarrow>
          (case fetch_rate_limit_status e t w of
             (None, w1) \<Rightarrow> ((None, None), w1)
           | (Some (Inl x), w1) \<Rightarrow> ((None, Some (Inl x)), w1)
           | (Some (Inr rt), w1) \<Rightarrow>
               if remaining rt < 100 \<and> 0 < reset rt \<and> float_overflow (reset rt)
               then ((None, Some (Inl too_large)), w1)
               else
                 (let w2 = (if remaining rt < 100 \<and> reset rt > time_now e
                            then w1 @ [Sleep (reset rt - time_now e)] else w1)
                  in case fetch_repo_content_prd (recursion_limit e) e owner repo
                            ''README.md'' token w2 of
                       (None, w3) \<Rightarrow> ((Some 100, None), w3)
                     | (Some (Inl x), w3) \<Rightarrow> ((Some 100, Some (Inl x)), w3)
                     | (Some (Inr readme_info), w3) \<Rightarrow>
                         ((Some 100, Some (get_file_content e readme_info)), w3))))"

text \<open>\<^verbatim>\<open>formatted_string\<close> after the first \<^verbatim>\<open>try ... except Exception as e\<close>.\<close>

definition readme_section_prd :: "exn + string \<Rightarrow> string" where
  "readme_section_prd r =
     (case r of
        Inr readme_content \<Rightarrow> readme_block readme_content
      | Inl x \<Rightarrow> ''Failed to retrieve README.md: '' @ str_exn x @ newline @ newline)"

text \<open>The body of the second \<^verbatim>\<open>try\<close>. \<open>fuel\<close> is the depth to which the tasks are followed.\<close>

definition tree_step_prd ::
  "nat \<Rightarrow> env \<Rightarrow> scheduler \<Rightarrow> nat option \<Rightarrow> string \<Rightarrow> string \<Rightarrow> string option \<Rightarrow> world \<Rightarrow>
   string outcome \<times> world" where
  "tree_step_prd fuel e sched semaphore owner repo token w =
     (case token of
        None \<Rightarrow> (Some (Inl (ValueError ''Token is required for building directory tree.'')), w)
      | Some t \<Rightarrow>
          (case semaphore of
             None \<Rightarrow>
               (Some (Inl (UnboundLocalError
                  (''cannot access local variable '' @ repr ''semaphore'' @
                   '' where it is not associated with a value''))), w)
           | Some s \<Rightarrow> build_directory_tree_prd fuel e sched s owner repo [] token 0 w))"

text \<open>What the second \<^verbatim>\<open>try ... except Exception as e\<close> adds to \<^verbatim>\<open>formatted_string\<close>.\<close>

definition tree_section_prd :: "exn + string \<Rightarrow> string" where
  "tree_section_prd r =
     (case r of
        Inr directory_tree \<Rightarrow> ''Directory Structure:'' @ newline @ directory_tree @ newline
      | Inl x \<Rightarrow> ''Failed to build directory tree: '' @ str_exn x @ newline)"

definition retrieve_github_repo_info_prd ::
  "nat \<Rightarrow> env \<Rightarrow> scheduler \<Rightarrow> string \<Rightarrow> string option \<Rightarrow> world \<Rightarrow> string outcome \<times> world" where
  "retrieve_github_repo_info_prd fuel e sched u token w =
     (case parse_github_url e u of
        Inl x \<Rightarrow> (Some (Inl x), w)
      | Inr (owner, repo) \<Rightarrow>
          (case readme_step_prd e owner repo token w of
             ((semaphore, None), w1) \<Rightarrow> (None, w1)
           | ((semaphore, Some r1), w1) \<Rightarrow>
               (case tree_step_prd fuel e sched semaphore owner repo token w1 of
                  (None, w2) \<Rightarrow> (None, w2)
                | (Some r2, w2) \<Rightarrow>
                    (Some (Inr (readme_section_prd r1 @ tree_section_prd r2)), w2))))"

subsection \<open>Assumptions on the environment\<close>

text \<open>
  A fixed set of remote responses: what the session answers to a request does not depend
  on how often the request was sent before.
\<close>

definition stateless :: "env \<Rightarrow> bool" where
  "stateless e = (\<forall>r n m. http_get e r n = http_get e r m)"

text \<open>
  An event loop under which every task completes: each order it chooses for \<open>n\<close> tasks is
  a permutation of the handles \<open>0, \<dots>, n - 1\<close>.
\<close>

definition completes_all :: "scheduler \<Rightarrow> bool" where
  "completes_all sched = (\<forall>w n. mset (sched w n) = mset [0..<n])"

subsection \<open>Concrete environments\<close>

text \<open>
  \<^verbatim>\<open>urlparse\<close> on locators of the form \<^verbatim>\<open>https://github.com<path>\<close> whose path holds no
  \<^verbatim>\<open>;\<close>, \<^verbatim>\<open>?\<close> or \<^verbatim>\<open>#\<close>.
\<close>

definition github_urlparse :: "string \<Rightarrow> exn + parse_result" where
  "github_urlparse u =
     Inr \<lparr>url_scheme = take 5 u, url_netloc = take 10 (drop 8 u), url_path = drop 18 u,
          url_params = [], url_query = [], url_fragment = []\<rparr>"

text \<open>
  An environment around a given session. Its decoder is the identity: the examples hold
  no base64 content, so it is never called. Its event loop completes the coroutines of
  a \<^verbatim>\<open>gather\<close> call in the order of their creation.
\<close>

definition example_env :: "(request \<Rightarrow> nat \<Rightarrow> http_outcome) \<Rightarrow> env" where
  "example_env get =
     \<lparr>http_get = get, urlparse = github_urlparse, b64decode_utf8 = (\<lambda>s. Inr s), time_now = 0,
      recursion_limit = 400,
      recursion_message = ''maximum recursion depth exceeded while calling a Python object'',
      gather_order = (\<lambda>w n. [0..<n])\<rparr>"

definition ok_response :: "json \<Rightarrow> response" where
  "ok_response body = \<lparr>status = 200, retry_after = None, reason = ''OK'', json_body = Inr body\<rparr>"

definition status_response :: "nat \<Rightarrow> string option \<Rightarrow> response" where
  "status_response st header =
     \<lparr>status = st, retry_after = header, reason = [], json_body = Inr Null\<rparr>"

text \<open>A session that answers the first \<open>n\<close> sendings of every request with \<open>bad\<close>, then \<open>good\<close>.\<close>

definition flaky_get :: "nat \<Rightarrow> http_outcome \<Rightarrow> http_outcome \<Rightarrow> request \<Rightarrow> nat \<Rightarrow> http_outcome" where
  "flaky_get n bad good r i = (if i < n then bad else good)"

text \<open>A session that answers from a fixed table of pages, keyed by URL, and 404 elsewhere.\<close>

definition static_get :: "(string \<times> json) list \<Rightarrow> request \<Rightarrow> nat \<Rightarrow> http_outcome" where
  "static_get pages r i =
     (case map_of pages (url r) of
        Some body \<Rightarrow> Responds (ok_response body)
      | None \<Rightarrow> Responds (status_response 404 None))"

text \<open>
  A repository \<^verbatim>\<open>o/r\<close> whose root lists the directory \<^verbatim>\<open>sub\<close> and then the file \<^verbatim>\<open>a.txt\<close>;
  \<^verbatim>\<open>sub\<close> holds the file \<^verbatim>\<open>b.txt\<close>.
\<close>

definition dir_before_file :: "(string \<times> json) list" where
  "dir_before_file =
     [(''https://api.github.com/repos/o/r/contents/'',
       Listing [\<lparr>item_name = ''sub'', item_path = ''sub'', item_type = ''dir''\<rparr>,
                \<lparr>item_name = ''a.txt'', item_path = ''a.txt'', item_type = ''file''\<rparr>]),
      (''https://api.github.com/repos/o/r/contents/sub'',
       Listing [\<lparr>item_name = ''b.txt'', item_path = ''sub/b.txt'', item_type = ''file''\<rparr>])]"

text \<open>
  A repository \<^verbatim>\<open>o/r\<close> whose root lists the directory \<^verbatim>\<open>sub\<close> and then the file \<^verbatim>\<open>a.md\<close>
  (content \<^verbatim>\<open>A\<close>); \<^verbatim>\<open>sub\<close> holds the file \<^verbatim>\<open>b.md\<close> (content \<^verbatim>\<open>B\<close>); there is no README.
\<close>

definition nested_markdown :: "(string \<times> json) list" where
  "nested_markdown =
     [(''https://api.github.com/repos/o/r/contents/'',
       Listing [\<lparr>item_name = ''sub'', item_path = ''sub'', item_type = ''dir''\<rparr>,
                \<lparr>item_name = ''a.md'', item_path = ''a.md'', item_type = ''file''\<rparr>]),
      (''https://api.github.com/repos/o/r/contents/sub'',
       Listing [\<lparr>item_name = ''b.md'', item_path = ''sub/b.md'', item_type = ''file''\<rparr>]),
      (''https://api.github.com/repos/o/r/contents/a.md'',
       FileInfo \<lparr>encoding = ''utf-8'', content = ''A''\<rparr>),
      (''https://api.github.com/repos/o/r/contents/sub/b.md'',
       FileInfo \<lparr>encoding = ''utf-8'', content = ''B''\<rparr>)]"

text \<open>The event loop that completes tasks in the order of their creation.\<close>

definition in_order :: scheduler where
  "in_order w n = [0..<n]"

text \<open>The event loop that completes the task created last first.\<close>

definition last_first :: scheduler where
  "last_first w n = rev [0..<n]"

text \<open>The page of the rate-limit endpoint, with quota left.\<close>

definition rate_limit_page :: "string \<times> json" where
  "rate_limit_page =
     (''https://api.github.com/rate_limit'',
      RateLimit \<lparr>remaining = 4999, limit = 5000, reset = 0\<rparr>)"

text \<open>The README of the repository \<^verbatim>\<open>o/r\<close>, as plain text.\<close>

definition readme_page :: "string \<times> json" where
  "readme_page =
     (''https://api.github.com/repos/o/r/contents/README.md'',
      FileInfo \<lparr>encoding = ''utf-8'', content = ''hello''\<rparr>)"

text \<open>
  A repository \<^verbatim>\<open>o/r\<close> whose root lists the directory \<^verbatim>\<open>.github\<close> (holding \<^verbatim>\<open>ci.md\<close>), the
  directory \<^verbatim>\<open>src\<close> and the file \<^verbatim>\<open>a.txt\<close>. The listing of \<^verbatim>\<open>src\<close> holds one entry, whose
  path leads into the excluded directory.
\<close>

definition with_github_dir :: "(string \<times> json) list" where
  "with_github_dir =
     [(''https://api.github.com/repos/o/r/contents/'',
       Listing [\<lparr>item_name = ''.github'', item_path = ''.github'', item_type = ''dir''\<rparr>,
                \<lparr>item_name = ''src'', item_path = ''src'', item_type = ''dir''\<rparr>,
                \<lparr>item_name = ''a.txt'', item_path = ''a.txt'', item_type = ''file''\<rparr>]),
      (''https://api.github.com/repos/o/r/contents/.github'',
       Listing [\<lparr>item_name = ''ci.md'', item_path = ''.github/ci.md'', item_type = ''file''\<rparr>]),
      (''https://api.github.com/repos/o/r/contents/src'',
       Listing [\<lparr>item_name = ''ci.md'', item_path = ''.github/ci.md'', item_type = ''file''\<rparr>]),
      (''https://api.github.com/repos/o/r/contents/.github/ci.md'',
       FileInfo \<lparr>encoding = ''utf-8'', content = ''ci''\<rparr>)]"

text \<open>
  A repository \<^verbatim>\<open>o/r\<close> whose root lists the directories \<^verbatim>\<open>x\<close> and \<^verbatim>\<open>y\<close>, each holding
  one file.
\<close>

definition two_dirs :: "(string \<times> json) list" where
  "two_dirs =
     [(''https://api.github.com/repos/o/r/contents/'',
       Listing [\<lparr>item_name = ''x'', item_path = ''x'', item_type = ''dir''\<rparr>,
                \<lparr>item_name = ''y'', item_path = ''y'', item_type = ''dir''\<rparr>]),
      (''https://api.github.com/repos/o/r/contents/x'',
       Listing [\<lparr>item_name = ''1.txt'', item_path = ''x/1.txt'', item_type = ''file''\<rparr>]),
      (''https://api.github.com/repos/o/r/contents/y'',
       Listing [\<lparr>item_name = ''2.txt'', item_path = ''y/2.txt'', item_type = ''file''\<rparr>])]"

section \<open>Properties\<close>

subsection \<open>Strings\<close>

lemma str_split_unfold:
  "str_split s sep =
     takeWhile (\<lambda>c. c \<noteq> sep) s #
     (case dropWhile (\<lambda>c. c \<noteq> sep) s of [] \<Rightarrow> [] | _ # r \<Rightarrow> str_split r sep)"
  by (induction s) (auto split: list.splits)

lemma str_split_not_Nil: "str_split s sep \<noteq> []"
  by (subst str_split_unfold) simp

lemma strip_prefix:
  "rev (dropWhile P (rev xs)) @ rev (takeWhile P (rev xs)) = xs"
  by (metis rev_append rev_rev_ident takeWhile_dropWhile_id)

lemma strip_hd:
  assumes "strip chars s \<noteq> []"
  shows "hd (strip chars s) \<notin> set chars"
proof -
  let ?P = "\<lambda>c. c \<in> set chars"
  let ?xs = "dropWhile ?P s"
  have eq: "strip chars s @ rev (takeWhile ?P (rev ?xs)) = ?xs"
    unfolding strip_def by (rule strip_prefix)
  from assms eq have "?xs \<noteq> []" by (metis append_is_Nil_conv)
  then have "\<not> ?P (hd ?xs)" by (rule hd_dropWhile)
  moreover from assms eq have "hd ?xs = hd (strip chars s)"
    by (metis hd_append2)
  ultimately show ?thesis by simp
qed

lemma strip_last:
  assumes "strip chars s \<noteq> []"
  shows "last (strip chars s) \<notin> set chars"
proof -
  let ?P = "\<lambda>c. c \<in> set chars"
  let ?ys = "dropWhile ?P (rev (dropWhile ?P s))"
  from assms have ne: "?ys \<noteq> []" by (simp add: strip_def)
  then have "\<not> ?P (hd ?ys)" by (rule hd_dropWhile)
  moreover have "last (strip chars s) = hd ?ys"
    using ne by (simp add: strip_def last_rev)
  ultimately show ?thesis by simp
qed


lemma str_split_no_sep:
  assumes "sep \<notin> set s"
  shows "str_split s sep = [s]"
  using assms by (induction s) auto

lemma str_split_sep:
  assumes "sep \<in> set s"
  shows "\<exists>a r. s = a @ sep # r \<and> sep \<notin> set a \<and>
             str_split s sep =
               a # takeWhile (\<lambda>c. c \<noteq> sep) r #
               (case dropWhile (\<lambda>c. c \<noteq> sep) r of [] \<Rightarrow> [] | _ # r' \<Rightarrow> str_split r' sep)"
proof -
  let ?P = "\<lambda>c. c \<noteq> sep"
  define a where "a = takeWhile ?P s"
  define d where "d = dropWhile ?P s"
  have sad: "s = a @ d" by (simp add: a_def d_def)
  have a: "sep \<notin> set a" unfolding a_def by (auto dest: set_takeWhileD)
  with assms sad have "d \<noteq> []" by auto
  then obtain c r where d: "d = c # r" by (cases d) auto
  have "\<not> ?P (hd (dropWhile ?P s))"
    by (rule hd_dropWhile) (use \<open>d \<noteq> []\<close> in \<open>simp add: d_def\<close>)
  with d have c: "c = sep" by (simp add: d_def)
  have "str_split s sep = a # str_split r sep"
    using d c by (subst str_split_unfold) (simp add: a_def d_def)
  also have "str_split r sep = takeWhile ?P r #
               (case dropWhile ?P r of [] \<Rightarrow> [] | _ # r' \<Rightarrow> str_split r' sep)"
    by (rule str_split_unfold)
  finally have "str_split s sep = a # takeWhile ?P r #
               (case dropWhile ?P r of [] \<Rightarrow> [] | _ # r' \<Rightarrow> str_split r' sep)" .
  moreover from sad d c have "s = a @ sep # r" by simp
  ultimately show ?thesis using a by blast
qed

text \<open>
  What \<open>parse_github_url\<close> gives: the exception of \<^verbatim>\<open>urlparse\<close>; or the first two pieces of
  the path (stripped of slashes at both ends, split at every slash), of which the first
  is never empty and the second is empty exactly when the first is followed by two
  slashes; or the validation fault, exactly when the stripped path holds no slash.
\<close>

lemma parse_github_url_cases:
  "(\<exists>x. urlparse e u = Inl x \<and> parse_github_url e u = Inl x) \<or>
   (\<exists>parsed owner name.
      urlparse e u = Inr parsed \<and>
      parse_github_url e u = Inr (owner, name) \<and> owner \<noteq> [] \<and>
      CHR ''/'' \<notin> set owner \<and> CHR ''/'' \<notin> set name \<and>
      (name = [] \<longleftrightarrow> (\<exists>rest. strip ''/'' (url_path parsed) = owner @ ''//'' @ rest))) \<or>
   (\<exists>parsed. urlparse e u = Inr parsed \<and>
      parse_github_url e u = Inl (ValueError ''Invalid GitHub URL provided!'') \<and>
      CHR ''/'' \<notin> set (strip ''/'' (url_path parsed)))"
proof (cases "urlparse e u")
  case (Inl x)
  then show ?thesis by (simp add: parse_github_url_def)
next
  case (Inr parsed)
  show ?thesis
  proof (cases "CHR ''/'' \<in> set (strip ''/'' (url_path parsed))")
    case False
    then show ?thesis
      using Inr by (simp add: parse_github_url_def str_split_no_sep)
  next
    case True
    define s where "s = strip ''/'' (url_path parsed)"
    let ?P = "\<lambda>c. c \<noteq> CHR ''/''"
    from True have "CHR ''/'' \<in> set s" by (simp add: s_def)
    from str_split_sep [OF this] obtain owner r where
      s: "s = owner @ CHR ''/'' # r" and o2: "CHR ''/'' \<notin> set owner" and
      sp: "str_split s CHR ''/'' = owner # takeWhile ?P r #
             (case dropWhile ?P r of [] \<Rightarrow> [] | _ # r' \<Rightarrow> str_split r' CHR ''/'')"
      by blast
    define name where "name = takeWhile ?P r"
    have res: "parse_github_url e u = Inr (owner, name)"
      using sp Inr by (simp add: parse_github_url_def Let_def s_def [symmetric] name_def)
    have ne: "strip ''/'' (url_path parsed) \<noteq> []"
      using True by auto
    from strip_hd [OF ne] have "hd s \<noteq> CHR ''/''" by (simp add: s_def)
    then have owner: "owner \<noteq> []" unfolding s by (cases owner) auto
    have n2: "CHR ''/'' \<notin> set name" unfolding name_def by (auto dest: set_takeWhileD)
    from strip_last [OF ne] have "last s \<noteq> CHR ''/''" by (simp add: s_def)
    then have rne: "r \<noteq> []" unfolding s by auto
    have "name = [] \<longleftrightarrow> (\<exists>rest. s = owner @ ''//'' @ rest)"
    proof
      assume "name = []"
      with rne obtain r' where "r = CHR ''/'' # r'"
        unfolding name_def by (cases r) (auto split: if_splits)
      then have "s = owner @ ''//'' @ r'" unfolding s by simp
      then show "\<exists>rest. s = owner @ ''//'' @ rest" by blast
    next
      assume "\<exists>rest. s = owner @ ''//'' @ rest"
      then obtain rest where "owner @ CHR ''/'' # r = owner @ ''//'' @ rest" unfolding s by blast
      then have "r = CHR ''/'' # rest" by simp
      then show "name = []" by (simp add: name_def)
    qed
    with res owner o2 n2 Inr show ?thesis unfolding s_def by blast
  qed
qed

lemma github_urlparse_example:
  "urlparse (example_env g) ''https://github.com/a//b'' =
     Inr \<lparr>url_scheme = ''https'', url_netloc = ''github.com'', url_path = ''/a//b'',
          url_params = [], url_query = [], url_fragment = []\<rparr>"
  by (simp add: example_env_def github_urlparse_def)

lemma strip_example: "strip ''/'' ''/a//b'' = ''a//b''"
  by (simp add: strip_def)

lemma str_split_example: "str_split ''a//b'' CHR ''/'' = [''a'', [], ''b'']"
  by simp

text \<open>
  Claim C7 fails on the code. The function checks the number of pieces only, and
  \<^verbatim>\<open>split\<close> keeps empty pieces: the locator \<^verbatim>\<open>https://github.com/a//b\<close> is accepted, with
  the owner \<^verbatim>\<open>a\<close> and an empty repository name, and the empty name goes into the URL of
  the requests.
\<close>

theorem parse_github_url_empty_name:
  "parse_github_url (example_env (static_get [])) ''https://github.com/a//b'' = Inr (''a'', []) \<and>
   url (contents_request ''a'' [] ''README.md'' None) =
     ''https://api.github.com/repos/a//contents/README.md''"
proof
  show "parse_github_url (example_env (static_get [])) ''https://github.com/a//b'' =
          Inr (''a'', [])"
    unfolding parse_github_url_def Let_def
    apply (simp only: github_urlparse_example sum.case parse_result.simps strip_example
             str_split_example)
    apply simp
    done
  show "url (contents_request ''a'' [] ''README.md'' None) =
          ''https://api.github.com/repos/a//contents/README.md''"
    by (simp add: contents_request_def)
qed

subsection \<open>The retry decorator and the production fetch\<close>

lemma count_list_snoc: "count_list (w @ [a]) b = count_list w b + (if a = b then 1 else 0)"
  by (induction w) auto

lemma count_request_backoff:
  "count_list (w @ [Request r, Backoff]) (Request r) = Suc (count_list w (Request r))"
  by (induction w) auto

lemma retry_loop_returns:
  assumes "target w = (Some (Inr v), w1)"
  shows "retry_loop retried k target w = (Some (Inr v), w1)"
  using assms by (cases k) auto

lemma retry_loop_raises:
  assumes "target w = (Some (Inl x), w1)" and "\<not> retried x"
  shows "retry_loop retried k target w = (Some (Inl x), w1)"
  using assms by (cases k) auto

lemma retry_loop_diverges:
  assumes "target w = (None, w1)"
  shows "retry_loop retried k target w = (None, w1)"
  using assms by (cases k) auto

lemma retry_loop_exhaust:
  assumes "\<And>i w1. i \<le> k \<Longrightarrow> count_list w1 (Request r) = c + i \<Longrightarrow>
             target w1 = (Some (Inl (x i)), w1 @ [Request r])"
    and "\<And>i. i < k \<Longrightarrow> retried (x i)"
    and "count_list w (Request r) = c"
  shows "retry_loop retried k target w =
           (Some (Inl (x k)), w @ concat (replicate k [Request r, Backoff]) @ [Request r])"
  using assms
proof (induction k arbitrary: w c x)
  case 0
  then show ?case by simp
next
  case (Suc k)
  have first: "target w = (Some (Inl (x 0)), w @ [Request r])"
    using Suc.prems(1) [of 0 w] Suc.prems(3) by simp
  have r0: "retried (x 0)" using Suc.prems(2) by simp
  have "retry_loop retried k target (w @ [Request r, Backoff]) =
          (Some (Inl ((x \<circ> Suc) k)),
           (w @ [Request r, Backoff]) @ concat (replicate k [Request r, Backoff]) @ [Request r])"
  proof (rule Suc.IH [where c = "Suc c"])
    fix i w1
    assume "i \<le> k" and "count_list w1 (Request r) = Suc c + i"
    then show "target w1 = (Some (Inl ((x \<circ> Suc) i)), w1 @ [Request r])"
      using Suc.prems(1) [of "Suc i" w1] by simp
  next
    fix i assume "i < k"
    then show "retried ((x \<circ> Suc) i)" using Suc.prems(2) [of "Suc i"] by simp
  next
    show "count_list (w @ [Request r, Backoff]) (Request r) = Suc c"
      using Suc.prems(3) by (simp add: count_request_backoff)
  qed
  then show ?case using first r0 by simp
qed

lemma retry_loop_success:
  assumes "n \<le> k"
    and "\<And>i w1. i < n \<Longrightarrow> count_list w1 (Request r) = c + i \<Longrightarrow>
             target w1 = (Some (Inl (x i)), w1 @ [Request r])"
    and "\<And>i. i < n \<Longrightarrow> retried (x i)"
    and "\<And>w1. count_list w1 (Request r) = c + n \<Longrightarrow>
             target w1 = (Some (Inr v), w1 @ [Request r])"
    and "count_list w (Request r) = c"
  shows "retry_loop retried k target w =
           (Some (Inr v), w @ concat (replicate n [Request r, Backoff]) @ [Request r])"
  using assms
proof (induction n arbitrary: k w c x)
  case 0
  then show ?case by (simp add: retry_loop_returns)
next
  case (Suc n)
  from Suc.prems(1) obtain k' where k: "k = Suc k'" and nk: "n \<le> k'" by (cases k) auto
  have first: "target w = (Some (Inl (x 0)), w @ [Request r])"
    using Suc.prems(2) [of 0 w] Suc.prems(5) by simp
  have r0: "retried (x 0)" using Suc.prems(3) by simp
  have "retry_loop retried k' target (w @ [Request r, Backoff]) =
          (Some (Inr v),
           (w @ [Request r, Backoff]) @ concat (replicate n [Request r, Backoff]) @ [Request r])"
  proof (rule Suc.IH [where c = "Suc c" and x = "x \<circ> Suc", OF nk])
    fix i w1
    assume "i < n" and "count_list w1 (Request r) = Suc c + i"
    then show "target w1 = (Some (Inl ((x \<circ> Suc) i)), w1 @ [Request r])"
      using Suc.prems(2) [of "Suc i" w1] by simp
  next
    fix i assume "i < n"
    then show "retried ((x \<circ> Suc) i)" using Suc.prems(3) [of "Suc i"] by simp
  next
    fix w1 assume "count_list w1 (Request r) = Suc c + n"
    then show "target w1 = (Some (Inr v), w1 @ [Request r])"
      using Suc.prems(4) [of w1] by simp
  next
    show "count_list (w @ [Request r, Backoff]) (Request r) = Suc c"
      using Suc.prems(5) by (simp add: count_request_backoff)
  qed
  then show ?case using first r0 k by simp
qed

lemma attempt_fails:
  assumes "http_get e r (count_list w (Request r)) = Fails x"
  shows "fetch_attempt_prd again e r w = (Some (Inl x), w @ [Request r])"
  using assms by (simp add: fetch_attempt_prd_def session_get_def)

lemma attempt_ok:
  assumes "http_get e r (count_list w (Request r)) = Responds resp" and "status resp = 200"
  shows "fetch_attempt_prd again e r w = (Some (json_body resp), w @ [Request r])"
  using assms by (simp add: fetch_attempt_prd_def session_get_def)

lemma attempt_not_found:
  assumes "http_get e r (count_list w (Request r)) = Responds resp" and "status resp = 404"
  shows "fetch_attempt_prd again e r w =
           (Some (Inl (ClientError ''Resource not found.'')), w @ [Request r])"
  using assms by (simp add: fetch_attempt_prd_def session_get_def)

lemma attempt_bad_retry_after:
  assumes "http_get e r (count_list w (Request r)) = Responds resp"
    and "status resp = 403 \<or> status resp = 429"
    and "retry_after resp = Some v" and "v \<noteq> []" and "py_int v = Inl x"
  shows "fetch_attempt_prd again e r w = (Some (Inl x), w @ [Request r])"
  using assms by (auto simp add: fetch_attempt_prd_def session_get_def)

lemma count_retries:
  "count_list (w @ concat (replicate n [Request r, Backoff]) @ [Request r]) (Request r) =
     count_list w (Request r) + n + 1"
  by (induction n arbitrary: w) (simp_all add: count_list_snoc count_request_backoff del: append_assoc add: append_assoc [symmetric])

lemma fetch_prd_retried:
  assumes "n \<le> 7"
    and "\<And>i w1. i < n \<Longrightarrow>
             count_list w1 (Request (contents_request owner repo path token)) =
               count_list w (Request (contents_request owner repo path token)) + i \<Longrightarrow>
             fetch_attempt_prd (fetch_repo_content_prd fuel e owner repo path token) e
               (contents_request owner repo path token) w1 =
             (Some (Inl (x i)), w1 @ [Request (contents_request owner repo path token)])"
    and "\<And>i. i < n \<Longrightarrow> transport_fault (x i)"
    and "http_get e (contents_request owner repo path token)
           (count_list w (Request (contents_request owner repo path token)) + n) = Responds resp"
    and "status resp = 200" and "json_body resp = Inr body"
  shows "fetch_repo_content_prd (Suc fuel) e owner repo path token w =
           (Some (Inr body),
            w @ concat (replicate n [Request (contents_request owner repo path token), Backoff]) @
            [Request (contents_request owner repo path token)])"
proof -
  let ?r = "contents_request owner repo path token"
  let ?again = "fetch_repo_content_prd fuel e owner repo path token"
  have "retry_loop transport_fault 7 (fetch_attempt_prd ?again e ?r) w =
          (Some (Inr body), w @ concat (replicate n [Request ?r, Backoff]) @ [Request ?r])"
  proof (rule retry_loop_success [where c = "count_list w (Request ?r)" and x = x, OF assms(1)])
    fix i w1
    assume "i < n" and "count_list w1 (Request ?r) = count_list w (Request ?r) + i"
    then show "fetch_attempt_prd ?again e ?r w1 = (Some (Inl (x i)), w1 @ [Request ?r])"
      by (rule assms(2))
  next
    fix i assume "i < n" then show "transport_fault (x i)" by (rule assms(3))
  next
    fix w1 assume "count_list w1 (Request ?r) = count_list w (Request ?r) + n"
    then show "fetch_attempt_prd ?again e ?r w1 = (Some (Inr body), w1 @ [Request ?r])"
      using attempt_ok [of e ?r w1 resp ?again] assms(4,5,6) by simp
  qed simp
  then show ?thesis by (simp add: on_exception_def)
qed

lemma fetch_prd_exhaust:
  assumes "\<And>i w1. i \<le> 7 \<Longrightarrow>
             count_list w1 (Request (contents_request owner repo path token)) =
               count_list w (Request (contents_request owner repo path token)) + i \<Longrightarrow>
             fetch_attempt_prd (fetch_repo_content_prd fuel e owner repo path token) e
               (contents_request owner repo path token) w1 =
             (Some (Inl (x i)), w1 @ [Request (contents_request owner repo path token)])"
    and "\<And>i. i < 7 \<Longrightarrow> transport_fault (x i)"
  shows "fetch_repo_content_prd (Suc fuel) e owner repo path token w =
           (Some (Inl (x 7)),
            w @ concat (replicate 7 [Request (contents_request owner repo path token), Backoff]) @
            [Request (contents_request owner repo path token)])"
proof -
  let ?r = "contents_request owner repo path token"
  let ?again = "fetch_repo_content_prd fuel e owner repo path token"
  have "retry_loop transport_fault 7 (fetch_attempt_prd ?again e ?r) w =
          (Some (Inl (x 7)), w @ concat (replicate 7 [Request ?r, Backoff]) @ [Request ?r])"
    by (rule retry_loop_exhaust [where c = "count_list w (Request ?r)"])
       (use assms in auto)
  then show ?thesis by (simp add: on_exception_def)
qed

text \<open>
  Claim C4. The decorator of \<open>fetch_repo_content\<close> (production version) makes at most 8
  calls. When the session fails with a transport fault on the first \<open>n \<le> 7\<close> sendings of
  the request and then answers 200, the fetch returns the body and the log holds \<open>n + 1\<close>
  sendings, with a wait of the decorator between two of them. When the first 8 sendings
  all fail with a transport fault, the fetch raises the fault of the eighth and the log
  holds 8 sendings. \<open>c\<close> is the number of sendings of the request before the call.
\<close>

theorem fetch_retry_bound:
  fixes fault :: "nat \<Rightarrow> exn"
  assumes "r = contents_request owner repo path token" and "c = count_list w (Request r)"
  shows
    "(n \<le> 7 \<and> (\<forall>i<n. http_get e r (c + i) = Fails (fault i) \<and> transport_fault (fault i)) \<and>
      http_get e r (c + n) = Responds resp \<and> status resp = 200 \<and> json_body resp = Inr body \<longrightarrow>
        fetch_repo_content_prd (Suc fuel) e owner repo path token w =
          (Some (Inr body), w @ concat (replicate n [Request r, Backoff]) @ [Request r]) \<and>
        count_list (snd (fetch_repo_content_prd (Suc fuel) e owner repo path token w)) (Request r) =
          c + (n + 1)) \<and>
     ((\<forall>i<8. http_get e r (c + i) = Fails (fault i) \<and> transport_fault (fault i)) \<longrightarrow>
        fetch_repo_content_prd (Suc fuel) e owner repo path token w =
          (Some (Inl (fault 7)), w @ concat (replicate 7 [Request r, Backoff]) @ [Request r]) \<and>
        count_list (snd (fetch_repo_content_prd (Suc fuel) e owner repo path token w)) (Request r) =
          c + 8)"
proof (intro conjI impI)
  assume h: "n \<le> 7 \<and> (\<forall>i<n. http_get e r (c + i) = Fails (fault i) \<and> transport_fault (fault i)) \<and>
      http_get e r (c + n) = Responds resp \<and> status resp = 200 \<and> json_body resp = Inr body"
  have 1: "fetch_repo_content_prd (Suc fuel) e owner repo path token w =
          (Some (Inr body), w @ concat (replicate n [Request r, Backoff]) @ [Request r])"
    unfolding assms(1)
  proof (rule fetch_prd_retried [where x = fault and resp = resp])
    fix i w1
    assume "i < n" and "count_list w1 (Request (contents_request owner repo path token)) =
               count_list w (Request (contents_request owner repo path token)) + i"
    then show "fetch_attempt_prd (fetch_repo_content_prd fuel e owner repo path token) e
               (contents_request owner repo path token) w1 =
             (Some (Inl (fault i)), w1 @ [Request (contents_request owner repo path token)])"
      using h assms by (intro attempt_fails) auto
  qed (use h assms in auto)
  then show "fetch_repo_content_prd (Suc fuel) e owner repo path token w =
          (Some (Inr body), w @ concat (replicate n [Request r, Backoff]) @ [Request r])" .
  show "count_list (snd (fetch_repo_content_prd (Suc fuel) e owner repo path token w)) (Request r) =
          c + (n + 1)"
    unfolding 1 snd_conv by (subst count_retries) (simp add: assms(2))
next
  assume h: "\<forall>i<8. http_get e r (c + i) = Fails (fault i) \<and> transport_fault (fault i)"
  have 2: "fetch_repo_content_prd (Suc fuel) e owner repo path token w =
          (Some (Inl (fault 7)), w @ concat (replicate 7 [Request r, Backoff]) @ [Request r])"
    unfolding assms(1)
  proof (rule fetch_prd_exhaust)
    fix i w1
    assume "i \<le> 7" and "count_list w1 (Request (contents_request owner repo path token)) =
               count_list w (Request (contents_request owner repo path token)) + i"
    then show "fetch_attempt_prd (fetch_repo_content_prd fuel e owner repo path token) e
               (contents_request owner repo path token) w1 =
             (Some (Inl (fault i)), w1 @ [Request (contents_request owner repo path token)])"
      using h assms by (intro attempt_fails) auto
  next
    fix i :: nat assume "i < 7" then show "transport_fault (fault i)" using h by auto
  qed
  then show "fetch_repo_content_prd (Suc fuel) e owner repo path token w =
          (Some (Inl (fault 7)), w @ concat (replicate 7 [Request r, Backoff]) @ [Request r])" .
  show "count_list (snd (fetch_repo_content_prd (Suc fuel) e owner repo path token w)) (Request r) =
          c + 8"
    unfolding 2 snd_conv by (subst count_retries) (simp add: assms(2))
qed

text \<open>
  Claim C4 at a session that times out twice and then answers, and at one that always
  times out.
\<close>

theorem fetch_retry_bound_witness:
  "fetch_repo_content_prd (Suc 0)
     (example_env (flaky_get 2 (Fails (TimeoutError [])) (Responds (ok_response Null))))
     ''o'' ''r'' ''p'' None [] =
   (Some (Inr Null),
    [Request (contents_request ''o'' ''r'' ''p'' None), Backoff,
     Request (contents_request ''o'' ''r'' ''p'' None), Backoff,
     Request (contents_request ''o'' ''r'' ''p'' None)]) \<and>
   count_list (snd (fetch_repo_content_prd (Suc 0)
     (example_env (\<lambda>r i. Fails (TimeoutError [])))
     ''o'' ''r'' ''p'' None [])) (Request (contents_request ''o'' ''r'' ''p'' None)) = 8"
proof -
  let ?r = "contents_request ''o'' ''r'' ''p'' None"
  let ?e1 = "example_env (flaky_get 2 (Fails (TimeoutError [])) (Responds (ok_response Null)))"
  let ?e2 = "example_env (\<lambda>r i. Fails (TimeoutError []))"
  have h1: "(2::nat) \<le> 7 \<and> (\<forall>i<2. http_get ?e1 ?r (0 + i) = Fails (TimeoutError []) \<and>
              transport_fault (TimeoutError [])) \<and>
            http_get ?e1 ?r (0 + 2) = Responds (ok_response Null) \<and>
            status (ok_response Null) = 200 \<and> json_body (ok_response Null) = Inr Null"
    by (simp add: example_env_def flaky_get_def ok_response_def)
  have h2: "\<forall>i<8. http_get ?e2 ?r (0 + i) = Fails (TimeoutError []) \<and>
              transport_fault (TimeoutError [])"
    by (simp add: example_env_def)
  have z: "0 = count_list [] (Request ?r)" by simp
  note t1 = fetch_retry_bound [where w = "[]" and c = 0 and n = 2 and e = ?e1
      and fault = "\<lambda>i. TimeoutError []" and resp = "ok_response Null" and body = Null
      and fuel = 0, OF refl z]
  note t2 = fetch_retry_bound [where w = "[]" and c = 0 and n = 0 and e = ?e2
      and fault = "\<lambda>i. TimeoutError []" and resp = "ok_response Null" and body = Null
      and fuel = 0, OF refl z]
  have a: "fetch_repo_content_prd (Suc 0) ?e1 ''o'' ''r'' ''p'' None [] =
             (Some (Inr Null), [] @ concat (replicate 2 [Request ?r, Backoff]) @ [Request ?r])"
    using t1 [THEN conjunct1, THEN mp, OF h1] by (rule conjunct1)
  have b: "count_list (snd (fetch_repo_content_prd (Suc 0) ?e2 ''o'' ''r'' ''p'' None []))
             (Request ?r) = 0 + 8"
    using t2 [THEN conjunct2, THEN mp, OF h2] by (rule conjunct2)
  have c: "[] @ concat (replicate 2 [Request ?r, Backoff]) @ [Request ?r] =
           [Request ?r, Backoff, Request ?r, Backoff, Request ?r]"
    by (simp add: numeral_2_eq_2)
  show ?thesis using a b unfolding c by (simp only: add_0 simp_thms)
qed

text \<open>
  Claim C3, as amended. On a 404 response \<open>fetch_repo_content\<close> (production version) raises
  \<^verbatim>\<open>aiohttp.ClientError("Resource not found.")\<close>, an exception of a class the decorator
  retries: it is retried like a transport fault. A 404 on the first \<open>n \<le> 7\<close> sendings
  followed by a 200 gives the body after \<open>n + 1\<close> sendings; a 404 on the first 8 sendings
  is raised to the caller after the eighth, with 7 waits of the decorator in between.
\<close>

theorem not_found_is_retried:
  assumes "r = contents_request owner repo path token" and "c = count_list w (Request r)"
  shows
    "(n \<le> 7 \<and> (\<forall>i<n. \<exists>resp. http_get e r (c + i) = Responds resp \<and> status resp = 404) \<and>
      http_get e r (c + n) = Responds ok \<and> status ok = 200 \<and> json_body ok = Inr body \<longrightarrow>
        fetch_repo_content_prd (Suc fuel) e owner repo path token w =
          (Some (Inr body), w @ concat (replicate n [Request r, Backoff]) @ [Request r])) \<and>
     ((\<forall>i<8. \<exists>resp. http_get e r (c + i) = Responds resp \<and> status resp = 404) \<longrightarrow>
        fetch_repo_content_prd (Suc fuel) e owner repo path token w =
          (Some (Inl (ClientError ''Resource not found.'')),
           w @ concat (replicate 7 [Request r, Backoff]) @ [Request r]))"
proof (intro conjI impI)
  assume h: "n \<le> 7 \<and> (\<forall>i<n. \<exists>resp. http_get e r (c + i) = Responds resp \<and> status resp = 404) \<and>
      http_get e r (c + n) = Responds ok \<and> status ok = 200 \<and> json_body ok = Inr body"
  show "fetch_repo_content_prd (Suc fuel) e owner repo path token w =
          (Some (Inr body), w @ concat (replicate n [Request r, Backoff]) @ [Request r])"
    unfolding assms(1)
  proof (rule fetch_prd_retried [where x = "\<lambda>i. ClientError ''Resource not found.''" and resp = ok])
    fix i w1
    assume "i < n" and "count_list w1 (Request (contents_request owner repo path token)) =
               count_list w (Request (contents_request owner repo path token)) + i"
    with h assms obtain resp where
      "http_get e (contents_request owner repo path token)
         (count_list w1 (Request (contents_request owner repo path token))) = Responds resp"
      "status resp = 404" by auto
    then show "fetch_attempt_prd (fetch_repo_content_prd fuel e owner repo path token) e
               (contents_request owner repo path token) w1 =
             (Some (Inl (ClientError ''Resource not found.'')),
              w1 @ [Request (contents_request owner repo path token)])"
      by (rule attempt_not_found)
  qed (use h assms in auto)
next
  assume h: "\<forall>i<8. \<exists>resp. http_get e r (c + i) = Responds resp \<and> status resp = 404"
  show "fetch_repo_content_prd (Suc fuel) e owner repo path token w =
          (Some (Inl (ClientError ''Resource not found.'')),
           w @ concat (replicate 7 [Request r, Backoff]) @ [Request r])"
    unfolding assms(1)
  proof (rule fetch_prd_exhaust [where x = "\<lambda>i. ClientError ''Resource not found.''"])
    fix i :: nat and w1
    assume "i \<le> 7" and "count_list w1 (Request (contents_request owner repo path token)) =
               count_list w (Request (contents_request owner repo path token)) + i"
    moreover from \<open>i \<le> 7\<close> have "i < 8" by simp
    ultimately obtain resp where
      "http_get e (contents_request owner repo path token)
         (count_list w1 (Request (contents_request owner repo path token))) = Responds resp"
      "status resp = 404" using h assms by auto
    then show "fetch_attempt_prd (fetch_repo_content_prd fuel e owner repo path token) e
               (contents_request owner repo path token) w1 =
             (Some (Inl (ClientError ''Resource not found.'')),
              w1 @ [Request (contents_request owner repo path token)])"
      by (rule attempt_not_found)
  qed simp
qed

lemma replicate_7:
  "concat (replicate 7 [a, b]) = [a, b, a, b, a, b, a, b, a, b, a, b, a, b]"
  by (simp add: eval_nat_numeral)

text \<open>
  The amended claim C3 at a session that answers 404 once and then 200, and at one that
  always answers 404.
\<close>

theorem not_found_is_retried_witness:
  "fetch_repo_content_prd (Suc 0)
     (example_env (flaky_get 1 (Responds (status_response 404 None)) (Responds (ok_response Null))))
     ''o'' ''r'' ''late'' None [] =
   (Some (Inr Null),
    [Request (contents_request ''o'' ''r'' ''late'' None), Backoff,
     Request (contents_request ''o'' ''r'' ''late'' None)]) \<and>
   fetch_repo_content_prd (Suc 0)
     (example_env (\<lambda>r i. Responds (status_response 404 (Some ''5''))))
     ''o'' ''r'' ''gone'' None [] =
   (Some (Inl (ClientError ''Resource not found.'')),
    concat (replicate 7 [Request (contents_request ''o'' ''r'' ''gone'' None), Backoff]) @
    [Request (contents_request ''o'' ''r'' ''gone'' None)])"
proof -
  let ?r1 = "contents_request ''o'' ''r'' ''late'' None"
  let ?r2 = "contents_request ''o'' ''r'' ''gone'' None"
  let ?e1 = "example_env (flaky_get 1 (Responds (status_response 404 None)) (Responds (ok_response Null)))"
  let ?e2 = "example_env (\<lambda>r i. Responds (status_response 404 (Some ''5'')))"
  have h1: "(1::nat) \<le> 7 \<and> (\<forall>i<1. \<exists>resp. http_get ?e1 ?r1 (0 + i) = Responds resp \<and> status resp = 404) \<and>
            http_get ?e1 ?r1 (0 + 1) = Responds (ok_response Null) \<and>
            status (ok_response Null) = 200 \<and> json_body (ok_response Null) = Inr Null"
    by (simp add: example_env_def flaky_get_def ok_response_def status_response_def)
  have h2: "\<forall>i<8. \<exists>resp. http_get ?e2 ?r2 (0 + i) = Responds resp \<and> status resp = 404"
    by (simp add: example_env_def status_response_def)
  have z1: "0 = count_list [] (Request ?r1)" and z2: "0 = count_list [] (Request ?r2)" by simp_all
  note t1 = not_found_is_retried [where w = "[]" and c = 0 and n = 1 and e = ?e1
      and ok = "ok_response Null" and body = Null and fuel = 0, OF refl z1]
  note t2 = not_found_is_retried [where w = "[]" and c = 0 and n = 0 and e = ?e2
      and ok = "ok_response Null" and body = Null and fuel = 0, OF refl z2]
  have a: "fetch_repo_content_prd (Suc 0) ?e1 ''o'' ''r'' ''late'' None [] =
             (Some (Inr Null), [] @ concat (replicate 1 [Request ?r1, Backoff]) @ [Request ?r1])"
    by (rule t1 [THEN conjunct1, THEN mp, OF h1])
  have b: "fetch_repo_content_prd (Suc 0) ?e2 ''o'' ''r'' ''gone'' None [] =
             (Some (Inl (ClientError ''Resource not found.'')),
              [] @ concat (replicate 7 [Request ?r2, Backoff]) @ [Request ?r2])"
    by (rule t2 [THEN conjunct2, THEN mp, OF h2])
  have c: "[] @ concat (replicate 1 [Request ?r1, Backoff]) @ [Request ?r1] =
           [Request ?r1, Backoff, Request ?r1]"
    by simp
  show ?thesis using a b unfolding c by (simp only: append_Nil simp_thms)
qed

text \<open>
  Claim C3 as stated fails: with a session that answers 404 to every request, the fault
  is not raised at once; the request is sent 8 times, with 7 waits of the decorator.
\<close>

theorem not_found_retried_eight_times:
  "fetch_repo_content_prd (Suc 0)
     (example_env (\<lambda>r i. Responds (status_response 404 None)))
     ''o'' ''r'' ''missing'' None [] =
   (Some (Inl (ClientError ''Resource not found.'')),
    [Request (contents_request ''o'' ''r'' ''missing'' None), Backoff,
     Request (contents_request ''o'' ''r'' ''missing'' None), Backoff,
     Request (contents_request ''o'' ''r'' ''missing'' None), Backoff,
     Request (contents_request ''o'' ''r'' ''missing'' None), Backoff,
     Request (contents_request ''o'' ''r'' ''missing'' None), Backoff,
     Request (contents_request ''o'' ''r'' ''missing'' None), Backoff,
     Request (contents_request ''o'' ''r'' ''missing'' None), Backoff,
     Request (contents_request ''o'' ''r'' ''missing'' None)])"
proof -
  let ?r = "contents_request ''o'' ''r'' ''missing'' None"
  let ?e = "example_env (\<lambda>r i. Responds (status_response 404 None))"
  have "fetch_repo_content_prd (Suc 0) ?e ''o'' ''r'' ''missing'' None [] =
          (Some (Inl (ClientError ''Resource not found.'')),
           [] @ concat (replicate 7 [Request ?r, Backoff]) @ [Request ?r])"
  proof (rule fetch_prd_exhaust [where x = "\<lambda>i. ClientError ''Resource not found.''"])
    fix i :: nat and w1
    have "http_get ?e ?r (count_list w1 (Request ?r)) = Responds (status_response 404 None)"
      by (simp add: example_env_def)
    moreover have "status (status_response 404 None) = 404"
      by (simp add: status_response_def)
    ultimately show "fetch_attempt_prd (fetch_repo_content_prd 0 ?e ''o'' ''r'' ''missing'' None) ?e
            ?r w1 = (Some (Inl (ClientError ''Resource not found.'')), w1 @ [Request ?r])"
      by (rule attempt_not_found)
  qed simp
  then show ?thesis by (simp only: replicate_7 append_Nil append_Cons)
qed

lemma py_int_date:
  "py_int ''Wed, 21 Oct 2015 07:28:00 GMT'' =
     Inl (ValueError (''invalid literal for int() with base 10: '' @
                      quote @ ''Wed, 21 Oct 2015 07:28:00 GMT'' @ quote))"
  by code_simp

text \<open>
  Claim C5 fails on the code. A Retry-After header may hold an HTTP date instead of a
  number of seconds. With such a value present on a 429 response, the production
  \<open>fetch_repo_content\<close> neither sleeps nor calls itself again: line 53 passes the value to
  \<^verbatim>\<open>int\<close>, whose \<^verbatim>\<open>ValueError\<close> the decorator does not retry, and the exception reaches the
  caller after one sending.
\<close>

theorem retry_after_date_not_slept:
  "fetch_repo_content_prd (Suc fuel)
     (example_env (\<lambda>r i. Responds (status_response 429 (Some ''Wed, 21 Oct 2015 07:28:00 GMT''))))
     ''o'' ''r'' ''p'' None [] =
   (Some (Inl (ValueError
      (''invalid literal for int() with base 10: '' @
       quote @ ''Wed, 21 Oct 2015 07:28:00 GMT'' @ quote))),
    [Request (contents_request ''o'' ''r'' ''p'' None)])"
proof -
  let ?r = "contents_request ''o'' ''r'' ''p'' None"
  let ?v = "''Wed, 21 Oct 2015 07:28:00 GMT''"
  let ?x = "ValueError (''invalid literal for int() with base 10: '' @ quote @ ?v @ quote)"
  let ?e = "example_env (\<lambda>r i. Responds (status_response 429 (Some ?v)))"
  have "fetch_attempt_prd (fetch_repo_content_prd fuel ?e ''o'' ''r'' ''p'' None) ?e ?r [] =
          (Some (Inl ?x), [] @ [Request ?r])"
  proof (rule attempt_bad_retry_after)
    show "http_get ?e ?r (count_list [] (Request ?r)) = Responds (status_response 429 (Some ?v))"
      by (simp add: example_env_def)
    show "status (status_response 429 (Some ?v)) = 403 \<or> status (status_response 429 (Some ?v)) = 429"
      by (simp add: status_response_def)
    show "retry_after (status_response 429 (Some ?v)) = Some ?v"
      by (simp add: status_response_def)
    show "?v \<noteq> []" by simp
    show "py_int ?v = Inl ?x" by (rule py_int_date)
  qed
  then have "retry_loop transport_fault 7
          (fetch_attempt_prd (fetch_repo_content_prd fuel ?e ''o'' ''r'' ''p'' None) ?e ?r) [] =
          (Some (Inl ?x), [] @ [Request ?r])"
    by (rule retry_loop_raises) simp
  then show ?thesis
    by (simp only: fetch_repo_content_prd.simps on_exception_def append_Nil
          diff_numeral_special numeral_eq_Suc pred_numeral_simps diff_Suc_1 BitM.simps)
qed

subsection \<open>The tree walk on concrete repositories\<close>

text \<open>
  Claim C1 fails on the production version. The root lists the directory \<^verbatim>\<open>sub\<close> before
  the file \<^verbatim>\<open>a.txt\<close>. The production walk adds the result of the sub-directory's task after
  its loop, so the line of \<^verbatim>\<open>sub/b.txt\<close> comes after the line of \<^verbatim>\<open>a.txt\<close>; the simple
  version, which awaits the sub-directory on the spot, gives the depth-first text.
\<close>

theorem prd_tree_not_depth_first:
  "fst (build_directory_tree_prd 3 (example_env (static_get dir_before_file)) in_order 100
          ''o'' ''r'' [] None 0 []) =
     Some (Inr ''[sub/]\<newline>a.txt\<newline>    b.txt\<newline>'') \<and>
   fst (build_directory_tree 3 (example_env (static_get dir_before_file))
          ''o'' ''r'' [] None 0 []) =
     Some (Inr (''[sub/]\<newline>    b.txt\<newline>a.txt\<newline>'', []))"
  by code_simp

text \<open>
  Claim C2 fails on the simple version. The content of \<^verbatim>\<open>sub/b.md\<close> is fetched (the request
  is in the log) and dropped: the document holds the content block of \<^verbatim>\<open>a.md\<close> only.
\<close>

theorem nested_file_content_dropped:
  "fst (retrieve_github_repo_info 3 (example_env (static_get nested_markdown))
          ''https://github.com/o/r'' None []) =
     Some (Inr (''README.md: Not found or error fetching README\<newline>\<newline>'' @
                ''Directory Structure:\<newline>[sub/]\<newline>    b.md\<newline>a.md\<newline>\<newline>'' @
                ''\<newline>```A```\<newline>'')) \<and>
   Request (contents_request ''o'' ''r'' ''sub/b.md'' None) \<in>
     set (snd (retrieve_github_repo_info 3 (example_env (static_get nested_markdown))
          ''https://github.com/o/r'' None []))"
  by code_simp

subsection \<open>The assembled document\<close>

text \<open>
  Claim C10. In the production version, a call with no token sends no request at all
  (the log is returned as it was given): both \<^verbatim>\<open>try\<close> blocks raise their token-required
  \<^verbatim>\<open>ValueError\<close>, and the document is the two diagnostic lines. The request the code
  builds for a fetch with no token carries no Authorization header
  (\<open>contents_request\<close>), so the requirement is the code's own.
\<close>

theorem no_token_no_fetch:
  assumes "parse_github_url e u = Inr (owner, repo)"
  shows "retrieve_github_repo_info_prd fuel e sched u None w =
           (Some (Inr (''Failed to retrieve README.md: Token is required for fetching repo content.'' @
                       newline @ newline @
                       ''Failed to build directory tree: Token is required for building directory tree.'' @
                       newline)), w) \<and>
         readme_step_prd e owner repo None w =
           ((Some 100, Some (Inl (ValueError ''Token is required for fetching repo content.''))), w) \<and>
         tree_step_prd fuel e sched (Some 100) owner repo None w =
           (Some (Inl (ValueError ''Token is required for building directory tree.'')), w)"
  using assms
  by (simp add: retrieve_github_repo_info_prd_def readme_step_prd_def tree_step_prd_def
        readme_section_prd_def tree_section_prd_def)

lemma parse_example:
  "parse_github_url (example_env (static_get [])) ''https://github.com/nomic-ai/nomic/tree/main'' =
     Inr (''nomic-ai'', ''nomic'')"
  by code_simp

text \<open>Claim C10 at the locator of the file's own \<^verbatim>\<open>main\<close>.\<close>

theorem no_token_no_fetch_witness:
  "retrieve_github_repo_info_prd 0 (example_env (static_get [])) in_order
     ''https://github.com/nomic-ai/nomic/tree/main'' None [] =
   (Some (Inr (''Failed to retrieve README.md: Token is required for fetching repo content.'' @
               newline @ newline @
               ''Failed to build directory tree: Token is required for building directory tree.'' @
               newline)), [])"
  using no_token_no_fetch [OF parse_example, of 0 in_order "[]"] by (rule conjunct1)

lemma readme_section_prd_not_Nil: "readme_section_prd r \<noteq> []"
  by (cases r) (simp_all add: readme_section_prd_def readme_block_def)

lemma readme_fallback_not_Nil: "readme_fallback \<noteq> []"
  by (simp add: readme_fallback_def)

lemma readme_block_not_Nil: "readme_block c \<noteq> []"
  by (simp add: readme_block_def)

lemma retrieve_prd_returns:
  assumes "parse_github_url e u = Inr (owner, repo)"
  shows "fst (retrieve_github_repo_info_prd fuel e sched u token w) = None \<or>
         (\<exists>r1 r2. fst (retrieve_github_repo_info_prd fuel e sched u token w) =
                     Some (Inr (readme_section_prd r1 @ tree_section_prd r2)))"
  using assms
  by (auto simp add: retrieve_github_repo_info_prd_def split: prod.splits option.splits)

lemma retrieve_simple_not_empty:
  "fst (retrieve_github_repo_info fuel e u token w) \<noteq> Some (Inr [])"
  by (auto simp add: retrieve_github_repo_info_def Let_def readme_fallback_not_Nil
        readme_block_not_Nil split: prod.splits option.splits sum.splits)

text \<open>
  Claim C8, as amended. Once the locator is parsed:
  \<^item> the production \<open>retrieve_github_repo_info\<close> never raises, and neither version returns
    an empty document;
  \<^item> production version, README step: when the first \<^verbatim>\<open>try\<close> block ends with an exception
    \<open>x\<close> after the semaphore was created (that is, no token was given or the rate check
    returned), the README section is the line \<^verbatim>\<open>Failed to retrieve README.md: x\<close> and the
    tree section is what the tree step gives, run as it would be after a README that was
    read;
  \<^item> production version, tree step: when the tree step ends with an exception \<open>y\<close>, the
    tree section is the line \<^verbatim>\<open>Failed to build directory tree: y\<close>, after the README section
    as the README step left it;
  \<^item> simple version, README step: when the README fetch or its decoding raises, the README
    section is the fixed line \<^verbatim>\<open>README.md: Not found or error fetching README\<close> and the
    tree section and the file contents follow;
  \<^item> simple version, tree step: an exception of the tree walk is raised to the caller and
    no document is returned.
\<close>

theorem partial_failure_absorbed:
  assumes "parse_github_url e u = Inr (owner, repo)"
  shows
    "(\<forall>x. fst (retrieve_github_repo_info_prd fuel e sched u token w) \<noteq> Some (Inl x)) \<and>
     fst (retrieve_github_repo_info_prd fuel e sched u token w) \<noteq> Some (Inr []) \<and>
     fst (retrieve_github_repo_info fuel e u token w) \<noteq> Some (Inr []) \<and>
     (readme_step_prd e owner repo token w = ((Some s, Some (Inl x)), w1) \<and>
      tree_step_prd fuel e sched (Some s) owner repo token w1 = (Some r2, w2) \<longrightarrow>
        retrieve_github_repo_info_prd fuel e sched u token w =
          (Some (Inr (''Failed to retrieve README.md: '' @ str_exn x @ newline @ newline @
                      tree_section_prd r2)), w2)) \<and>
     (readme_step_prd e owner repo token w = ((sem, Some r1), w1) \<and>
      tree_step_prd fuel e sched sem owner repo token w1 = (Some (Inl y), w2) \<longrightarrow>
        retrieve_github_repo_info_prd fuel e sched u token w =
          (Some (Inr (readme_section_prd r1 @
                      ''Failed to build directory tree: '' @ str_exn y @ newline)), w2)) \<and>
     (fetch_repo_content e owner repo ''README.md'' token w = (r, w1) \<and>
      (r = Inl x \<or> (\<exists>info. r = Inr info \<and> get_file_content e info = Inl x)) \<and>
      build_directory_tree fuel e owner repo [] token 0 w1 = (Some (Inr (tree, contents)), w2) \<longrightarrow>
        retrieve_github_repo_info fuel e u token w =
          (Some (Inr (readme_fallback @ ''Directory Structure:'' @ newline @ tree @ newline @
                      concat (map content_block contents))), w2)) \<and>
     (fetch_repo_content e owner repo ''README.md'' token w = (r, w1) \<and>
      build_directory_tree fuel e owner repo [] token 0 w1 = (Some (Inl y), w2) \<longrightarrow>
        retrieve_github_repo_info fuel e u token w = (Some (Inl y), w2))"
proof (intro conjI allI impI)
  fix x
  show "fst (retrieve_github_repo_info_prd fuel e sched u token w) \<noteq> Some (Inl x)"
    using retrieve_prd_returns [OF assms, of fuel sched token w] by auto
next
  show "fst (retrieve_github_repo_info_prd fuel e sched u token w) \<noteq> Some (Inr [])"
    using retrieve_prd_returns [OF assms, of fuel sched token w] readme_section_prd_not_Nil
    by auto
next
  show "fst (retrieve_github_repo_info fuel e u token w) \<noteq> Some (Inr [])"
    by (rule retrieve_simple_not_empty)
next
  assume "readme_step_prd e owner repo token w = ((Some s, Some (Inl x)), w1) \<and>
      tree_step_prd fuel e sched (Some s) owner repo token w1 = (Some r2, w2)"
  then show "retrieve_github_repo_info_prd fuel e sched u token w =
          (Some (Inr (''Failed to retrieve README.md: '' @ str_exn x @ newline @ newline @
                      tree_section_prd r2)), w2)"
    using assms by (simp add: retrieve_github_repo_info_prd_def readme_section_prd_def)
next
  assume "readme_step_prd e owner repo token w = ((sem, Some r1), w1) \<and>
      tree_step_prd fuel e sched sem owner repo token w1 = (Some (Inl y), w2)"
  then show "retrieve_github_repo_info_prd fuel e sched u token w =
          (Some (Inr (readme_section_prd r1 @
                      ''Failed to build directory tree: '' @ str_exn y @ newline)), w2)"
    using assms by (simp add: retrieve_github_repo_info_prd_def tree_section_prd_def)
next
  assume "fetch_repo_content e owner repo ''README.md'' token w = (r, w1) \<and>
      (r = Inl x \<or> (\<exists>info. r = Inr info \<and> get_file_content e info = Inl x)) \<and>
      build_directory_tree fuel e owner repo [] token 0 w1 = (Some (Inr (tree, contents)), w2)"
  then show "retrieve_github_repo_info fuel e u token w =
          (Some (Inr (readme_fallback @ ''Directory Structure:'' @ newline @ tree @ newline @
                      concat (map content_block contents))), w2)"
    using assms by (auto simp add: retrieve_github_repo_info_def)
next
  assume "fetch_repo_content e owner repo ''README.md'' token w = (r, w1) \<and>
      build_directory_tree fuel e owner repo [] token 0 w1 = (Some (Inl y), w2)"
  then show "retrieve_github_repo_info fuel e u token w = (Some (Inl y), w2)"
    using assms by (simp add: retrieve_github_repo_info_def Let_def)
qed


lemma parse_o_r:
  "parse_github_url (example_env g) ''https://github.com/o/r'' = Inr (''o'', ''r'')"
proof -
  have p: "urlparse (example_env g) ''https://github.com/o/r'' =
             Inr \<lparr>url_scheme = ''https'', url_netloc = ''github.com'', url_path = ''/o/r'',
                  url_params = [], url_query = [], url_fragment = []\<rparr>"
    by (simp add: example_env_def github_urlparse_def)
  have s: "strip ''/'' ''/o/r'' = ''o/r''" by code_simp
  have sp: "str_split ''o/r'' CHR ''/'' = [''o'', ''r'']" by code_simp
  show ?thesis
    unfolding parse_github_url_def Let_def
    apply (simp only: p sum.case parse_result.simps s sp)
    apply simp
    done
qed

text \<open>
  The amended claim C8 on the repository \<^verbatim>\<open>o/r\<close>: the production version with no README
  (the tree section is populated), the production version with no root listing (the
  README section is intact), the simple version with no README.
\<close>

theorem partial_failure_absorbed_witness:
  "fst (retrieve_github_repo_info_prd 3
          (example_env (static_get (rate_limit_page # dir_before_file))) in_order
          ''https://github.com/o/r'' (Some ''t'') []) =
     Some (Inr (''Failed to retrieve README.md: Resource not found.\<newline>\<newline>'' @
                ''Directory Structure:\<newline>[sub/]\<newline>a.txt\<newline>    b.txt\<newline>\<newline>'')) \<and>
   fst (retrieve_github_repo_info_prd 3
          (example_env (static_get [rate_limit_page, readme_page])) in_order
          ''https://github.com/o/r'' (Some ''t'') []) =
     Some (Inr (''README.md:\<newline>```\<newline>hello\<newline>```\<newline>\<newline>'' @
                ''Failed to build directory tree: Resource not found.\<newline>'')) \<and>
   fst (retrieve_github_repo_info 3 (example_env (static_get dir_before_file))
          ''https://github.com/o/r'' None []) =
     Some (Inr (''README.md: Not found or error fetching README\<newline>\<newline>'' @
                ''Directory Structure:\<newline>[sub/]\<newline>    b.txt\<newline>a.txt\<newline>\<newline>''))"
proof -
  let ?u = "''https://github.com/o/r''"
  let ?e1 = "example_env (static_get (rate_limit_page # dir_before_file))"
  let ?e2 = "example_env (static_get [rate_limit_page, readme_page])"
  let ?e3 = "example_env (static_get dir_before_file)"
  let ?w1 = "snd (readme_step_prd ?e1 ''o'' ''r'' (Some ''t'') [])"
  let ?w2 = "snd (tree_step_prd 3 ?e1 in_order (Some 100) ''o'' ''r'' (Some ''t'') ?w1)"
  have h1: "readme_step_prd ?e1 ''o'' ''r'' (Some ''t'') [] =
              ((Some 100, Some (Inl (ClientError ''Resource not found.''))), ?w1) \<and>
            tree_step_prd 3 ?e1 in_order (Some 100) ''o'' ''r'' (Some ''t'') ?w1 =
              (Some (Inr ''[sub/]\<newline>a.txt\<newline>    b.txt\<newline>''), ?w2)"
    by code_simp
  have a: "retrieve_github_repo_info_prd 3 ?e1 in_order ?u (Some ''t'') [] =
             (Some (Inr (''Failed to retrieve README.md: '' @
                         str_exn (ClientError ''Resource not found.'') @ newline @ newline @
                         tree_section_prd (Inr ''[sub/]\<newline>a.txt\<newline>    b.txt\<newline>''))), ?w2)"
    by (rule partial_failure_absorbed [OF parse_o_r [of "static_get (rate_limit_page # dir_before_file)"], where fuel = 3 and sched = in_order
        and token = "Some ''t''" and w = "[]" and s = 100
        and x = "ClientError ''Resource not found.''" and ?w1.0 = ?w1 and ?w2.0 = ?w2
        and ?r2.0 = "Inr ''[sub/]\<newline>a.txt\<newline>    b.txt\<newline>''", THEN conjunct2, THEN conjunct2, THEN conjunct2, THEN conjunct1, THEN mp, OF h1])
  have a': "''Failed to retrieve README.md: '' @
              str_exn (ClientError ''Resource not found.'') @ newline @ newline @
              tree_section_prd (Inr ''[sub/]\<newline>a.txt\<newline>    b.txt\<newline>'') =
            ''Failed to retrieve README.md: Resource not found.\<newline>\<newline>'' @
            ''Directory Structure:\<newline>[sub/]\<newline>a.txt\<newline>    b.txt\<newline>\<newline>''"
    by code_simp
  let ?v1 = "snd (readme_step_prd ?e2 ''o'' ''r'' (Some ''t'') [])"
  let ?v2 = "snd (tree_step_prd 3 ?e2 in_order (Some 100) ''o'' ''r'' (Some ''t'') ?v1)"
  have h2: "readme_step_prd ?e2 ''o'' ''r'' (Some ''t'') [] =
              ((Some 100, Some (Inr ''hello'')), ?v1) \<and>
            tree_step_prd 3 ?e2 in_order (Some 100) ''o'' ''r'' (Some ''t'') ?v1 =
              (Some (Inl (ClientError ''Resource not found.'')), ?v2)"
    by code_simp
  have b: "retrieve_github_repo_info_prd 3 ?e2 in_order ?u (Some ''t'') [] =
             (Some (Inr (readme_section_prd (Inr ''hello'') @
                         ''Failed to build directory tree: '' @
                         str_exn (ClientError ''Resource not found.'') @ newline)), ?v2)"
    by (rule partial_failure_absorbed [OF parse_o_r [of "static_get [rate_limit_page, readme_page]"], where fuel = 3 and sched = in_order
        and token = "Some ''t''" and w = "[]" and sem = "Some 100"
        and y = "ClientError ''Resource not found.''" and ?w1.0 = ?v1 and ?w2.0 = ?v2
        and ?r1.0 = "Inr ''hello''", THEN conjunct2, THEN conjunct2, THEN conjunct2, THEN conjunct2, THEN conjunct1, THEN mp, OF h2])
  have b': "readme_section_prd (Inr ''hello'') @ ''Failed to build directory tree: '' @
              str_exn (ClientError ''Resource not found.'') @ newline =
            ''README.md:\<newline>```\<newline>hello\<newline>```\<newline>\<newline>'' @
            ''Failed to build directory tree: Resource not found.\<newline>''"
    by code_simp
  let ?x = "ClientResponseError 404 [] ''https://api.github.com/repos/o/r/contents/README.md''"
  let ?z1 = "snd (fetch_repo_content ?e3 ''o'' ''r'' ''README.md'' None [])"
  let ?z2 = "snd (build_directory_tree 3 ?e3 ''o'' ''r'' [] None 0 ?z1)"
  have h3: "fetch_repo_content ?e3 ''o'' ''r'' ''README.md'' None [] = (Inl ?x, ?z1) \<and>
            (Inl ?x = Inl ?x \<or> (\<exists>info. Inl ?x = Inr info \<and> get_file_content ?e3 info = Inl ?x)) \<and>
            build_directory_tree 3 ?e3 ''o'' ''r'' [] None 0 ?z1 =
              (Some (Inr (''[sub/]\<newline>    b.txt\<newline>a.txt\<newline>'', [])), ?z2)"
    by (intro conjI disjI1 refl; code_simp)
  have c: "retrieve_github_repo_info 3 ?e3 ?u None [] =
             (Some (Inr (readme_fallback @ ''Directory Structure:'' @ newline @
                         ''[sub/]\<newline>    b.txt\<newline>a.txt\<newline>'' @ newline @
                         concat (map content_block []))), ?z2)"
    by (rule partial_failure_absorbed [OF parse_o_r [of "static_get dir_before_file"], where fuel = 3
        and token = None and w = "[]" and r = "Inl ?x" and x = ?x and ?w1.0 = ?z1 and ?w2.0 = ?z2
        and tree = "''[sub/]\<newline>    b.txt\<newline>a.txt\<newline>''" and contents = "[]", THEN conjunct2, THEN conjunct2, THEN conjunct2, THEN conjunct2, THEN conjunct2, THEN conjunct1, THEN mp, OF h3])
  have c': "readme_fallback @ ''Directory Structure:'' @ newline @
              ''[sub/]\<newline>    b.txt\<newline>a.txt\<newline>'' @ newline @ concat (map content_block []) =
            ''README.md: Not found or error fetching README\<newline>\<newline>'' @
            ''Directory Structure:\<newline>[sub/]\<newline>    b.txt\<newline>a.txt\<newline>\<newline>''"
    by code_simp
  show ?thesis
    unfolding a b c fst_conv a' b' c' by (intro conjI refl)
qed

text \<open>
  Claim C8 as stated fails on the simple version: with a README that can be read and a
  root listing that answers 404, the function returns no document; the exception of the
  tree walk leaves it.
\<close>

theorem tree_failure_raised_by_simple_version:
  "fst (retrieve_github_repo_info 3 (example_env (static_get [readme_page]))
          ''https://github.com/o/r'' None []) =
     Some (Inl (ClientResponseError 404 [] ''https://api.github.com/repos/o/r/contents/''))"
  by code_simp

text \<open>
  In the production version the semaphore is created inside the first \<^verbatim>\<open>try\<close> block, after
  the rate check. When the rate check raises (here: the endpoint answers 404 with no JSON
  object), the variable is never assigned, and the tree step fails on it although the
  README and the listings can all be fetched.
\<close>

lemma rate_check_failure_spoils_tree:
  "fst (retrieve_github_repo_info_prd 3 (example_env (static_get (readme_page # dir_before_file)))
          in_order ''https://github.com/o/r'' (Some ''t'') []) =
     Some (Inr (''Failed to retrieve README.md: '' @ quote @ ''NoneType'' @ quote @
                '' object is not subscriptable\<newline>\<newline>'' @
                ''Failed to build directory tree: cannot access local variable '' @
                quote @ ''semaphore'' @ quote @ '' where it is not associated with a value\<newline>''))"
  by code_simp

subsection \<open>The excluded path segment\<close>

lemma walk_items_skips_excluded:
  "walk_items walk indent items tree_str tasks w =
   walk_items walk indent (filter (\<lambda>it. \<not> excluded (item_path it)) items) tree_str tasks w"
  by (induction items arbitrary: tree_str tasks w) (auto split: prod.splits option.splits sum.splits)

lemma walk_items_prd_skips_excluded:
  "walk_items_prd fetch e semaphore indent items tree_str tasks w =
   walk_items_prd fetch e semaphore indent (filter (\<lambda>it. \<not> excluded (item_path it)) items)
     tree_str tasks w"
  by (induction items arbitrary: tree_str tasks w) (auto split: prod.splits option.splits sum.splits)

lemma contents_request_inj:
  "contents_request owner repo p token = contents_request owner repo q token \<Longrightarrow> p = q"
  by (simp add: contents_request_def)

lemma fetch_repo_content_log:
  "snd (fetch_repo_content e owner repo q token w) =
     w @ [Request (contents_request owner repo q token)]"
  by (simp add: fetch_repo_content_def session_get_def Let_def split: http_outcome.splits)

lemma fetch_repo_content_untouched:
  assumes "ev \<notin> set w" and "ev \<noteq> Request (contents_request owner repo q token)"
  shows "ev \<notin> set (snd (fetch_repo_content e owner repo q token w))"
  using assms by (simp add: fetch_repo_content_log)

lemma retry_loop_untouched:
  assumes "\<And>w. ev \<notin> set w \<Longrightarrow> ev \<notin> set (snd (target w))" and "ev \<noteq> Backoff"
    and "ev \<notin> set w"
  shows "ev \<notin> set (snd (retry_loop retried k target w))"
  using assms(3)
proof (induction k arbitrary: w)
  case 0
  then show ?case by (simp add: assms(1))
next
  case (Suc k)
  obtain r w1 where t: "target w = (r, w1)" by (cases "target w")
  with assms(1) [OF Suc.prems] have w1: "ev \<notin> set w1" by simp
  then have "ev \<notin> set (w1 @ [Backoff])" using assms(2) by simp
  then have "ev \<notin> set (snd (retry_loop retried k target (w1 @ [Backoff])))" by (rule Suc.IH)
  with t w1 show ?case by (auto split: option.splits sum.splits)
qed

lemma fetch_attempt_prd_untouched:
  assumes "\<And>w. ev \<notin> set w \<Longrightarrow> ev \<notin> set (snd (again w))"
    and "ev \<noteq> Request r" and "\<And>s. ev \<noteq> Sleep s" and "ev \<notin> set w"
  shows "ev \<notin> set (snd (fetch_attempt_prd again e r w))"
proof -
  have "\<And>s. ev \<notin> set (snd (again (w @ [Request r, Sleep s])))"
    using assms by (intro assms(1)) auto
  then show ?thesis
    using assms(2,4)
    by (auto simp add: fetch_attempt_prd_def session_get_def
        split: http_outcome.splits option.splits sum.splits)
qed

lemma fetch_repo_content_prd_untouched:
  assumes "ev \<noteq> Request (contents_request owner repo q token)"
    and "ev \<noteq> Backoff" and "\<And>s. ev \<noteq> Sleep s" and "ev \<notin> set w"
  shows "ev \<notin> set (snd (fetch_repo_content_prd fuel e owner repo q token w))"
  using assms(4)
proof (induction fuel arbitrary: w)
  case 0
  then show ?case by simp
next
  case (Suc fuel)
  show ?case
    unfolding fetch_repo_content_prd.simps on_exception_def
  proof (rule retry_loop_untouched [OF _ assms(2) Suc.prems])
    fix w' assume "ev \<notin> set w'"
    then show "ev \<notin> set (snd (fetch_attempt_prd (fetch_repo_content_prd fuel e owner repo q token)
                 e (contents_request owner repo q token) w'))"
      using Suc.IH assms(1,3) by (intro fetch_attempt_prd_untouched) auto
  qed
qed

lemma walk_items_untouched:
  assumes "\<And>q i w. \<not> excluded q \<Longrightarrow> ev \<notin> set w \<Longrightarrow> ev \<notin> set (snd (walk q i w))"
    and "ev \<notin> set w"
  shows "ev \<notin> set (snd (walk_items walk indent items tree_str tasks w))"
  using assms(2)
proof (induction items arbitrary: tree_str tasks w)
  case Nil
  then show ?case by simp
next
  case (Cons it items)
  show ?case
  proof (cases "\<not> excluded (item_path it) \<and> item_type it = ''dir''")
    case True
    obtain r w1 where sub: "walk (item_path it) (indent + 1) w = (r, w1)"
      by (cases "walk (item_path it) (indent + 1) w")
    with assms(1) [of "item_path it" w "indent + 1"] True Cons.prems
    have "ev \<notin> set w1" by simp
    then show ?thesis
      using True sub Cons.IH by (auto split: option.splits sum.splits)
  next
    case False
    then show ?thesis using Cons by auto
  qed
qed

lemma walk_items_tasks:
  assumes "walk_items walk indent items tree_str tasks w = (Some (Inr (t, tasks')), w')"
    and "list_all (\<lambda>q. \<not> excluded q) tasks"
  shows "list_all (\<lambda>q. \<not> excluded q) tasks'"
  using assms
proof (induction items arbitrary: tree_str tasks w)
  case Nil
  then show ?case by simp
next
  case (Cons it items)
  then show ?case
    by (auto split: if_splits prod.splits option.splits sum.splits)
qed

lemma run_all_untouched:
  assumes "\<And>c w. c \<in> set cs \<Longrightarrow> ev \<notin> set w \<Longrightarrow> ev \<notin> set (snd (c w))"
    and "ev \<notin> set w"
  shows "ev \<notin> set (snd (run_all cs w))"
  using assms
proof (induction cs arbitrary: w)
  case Nil
  then show ?case by simp
next
  case (Cons c cs)
  obtain r w1 where c: "c w = (r, w1)" by (cases "c w")
  with Cons.prems(1) [of c w] Cons.prems(2) have "ev \<notin> set w1" by simp
  then have "ev \<notin> set (snd (run_all cs w1))"
    using Cons.prems(1) by (intro Cons.IH) auto
  with c show ?case by (auto split: prod.splits)
qed

lemma gather_untouched:
  assumes "\<And>c w. c \<in> set cs \<Longrightarrow> ev \<notin> set w \<Longrightarrow> ev \<notin> set (snd (c w))"
    and "ev \<notin> set w"
  shows "ev \<notin> set (snd (gather order cs w))"
proof -
  have "ev \<notin> set (snd (run_all cs w))"
    by (rule run_all_untouched) (use assms in auto)
  then show ?thesis by (auto simp add: gather_def split: prod.splits option.splits)
qed

lemma build_directory_tree_untouched:
  assumes "excluded p"
  shows "\<not> excluded path \<Longrightarrow> Request (contents_request owner repo p token) \<notin> set w \<Longrightarrow>
         Request (contents_request owner repo p token) \<notin>
           set (snd (build_directory_tree fuel e owner repo path token indent w))"
proof (induction fuel arbitrary: path indent w)
  case 0
  then show ?case by simp
next
  case (Suc fuel)
  let ?ev = "Request (contents_request owner repo p token)"
  have ne: "\<And>q. \<not> excluded q \<Longrightarrow> ?ev \<noteq> Request (contents_request owner repo q token)"
    using assms by (auto dest: contents_request_inj)
  obtain r w1 where f: "fetch_repo_content e owner repo path token w = (r, w1)"
    by (cases "fetch_repo_content e owner repo path token w")
  have w1: "?ev \<notin> set w1"
    using fetch_repo_content_untouched [OF Suc.prems(2) ne [OF Suc.prems(1)], of e] f by simp
  show ?case
  proof (cases r)
    case (Inl x)
    then show ?thesis using f w1 by simp
  next
    case (Inr body)
    show ?thesis
    proof (cases body)
      case (Listing items)
      let ?walk = "\<lambda>p i. build_directory_tree fuel e owner repo p token i"
      obtain r2 w2 where wi: "walk_items ?walk indent items [] [] w1 = (r2, w2)"
        by (cases "walk_items ?walk indent items [] [] w1")
      have w2: "?ev \<notin> set w2"
        using walk_items_untouched [of ?ev ?walk w1 indent items "[]" "[]"] Suc.IH w1 wi
        by simp
      show ?thesis
      proof (cases r2)
        case None
        then show ?thesis using f Inr Listing wi w2 by simp
      next
        case (Some r3)
        show ?thesis
        proof (cases r3)
          case (Inl x)
          then show ?thesis using f Inr Listing wi w2 Some by simp
        next
          case (Inr res)
          obtain tree_str tasks where res: "res = (tree_str, tasks)" by (cases res)
          from wi Some Inr res have "list_all (\<lambda>q. \<not> excluded q) tasks"
            by (intro walk_items_tasks [of ?walk indent items "[]" "[]" w1 tree_str tasks w2]) auto
          then have "?ev \<notin> set (snd (gather (gather_order e w2 (length tasks))
                (map (\<lambda>p. fetch_repo_content e owner repo p token) tasks) w2))"
            using w2 ne
            by (intro gather_untouched) (auto simp add: list_all_iff fetch_repo_content_log)
          then show ?thesis
            using f \<open>r = Inr body\<close> Listing wi Some Inr res
            by (auto split: prod.splits sum.splits)
        qed
      qed
    next
      case (FileInfo x2)
      then show ?thesis using f Inr w1 by simp
    next
      case (RateLimit x3)
      then show ?thesis using f Inr w1 by simp
    next
      case Null
      then show ?thesis using f Inr w1 by simp
    qed
  qed
qed

lemma walk_items_prd_untouched:
  assumes "\<And>q w. \<not> excluded q \<Longrightarrow> ev \<notin> set w \<Longrightarrow> ev \<notin> set (snd (fetch q w))"
    and "ev \<notin> set w"
  shows "ev \<notin> set (snd (walk_items_prd fetch e semaphore indent items tree_str tasks w))"
  using assms(2)
proof (induction items arbitrary: tree_str tasks w)
  case Nil
  then show ?case by simp
next
  case (Cons it items)
  show ?case
  proof (cases "\<not> excluded (item_path it) \<and> item_type it \<noteq> ''dir'' \<and>
                endswith (item_name it) allowed_extensions \<and> semaphore \<noteq> 0")
    case True
    obtain r w1 where sub: "fetch (item_path it) w = (r, w1)"
      by (cases "fetch (item_path it) w")
    with assms(1) [of "item_path it" w] True Cons.prems
    have "ev \<notin> set w1" by simp
    then show ?thesis
      using True sub Cons.IH by (auto split: option.splits sum.splits)
  next
    case False
    then show ?thesis using Cons by auto
  qed
qed

lemma walk_items_prd_tasks:
  assumes "list_all (\<lambda>tk. \<not> excluded (fst tk)) tasks"
  shows "list_all (\<lambda>tk. \<not> excluded (fst tk))
           (snd (fst (walk_items_prd fetch e semaphore indent items tree_str tasks w)))"
  using assms
proof (induction items arbitrary: tree_str tasks w)
  case Nil
  then show ?case by simp
next
  case (Cons it items)
  then show ?case
    by (auto split: if_splits prod.splits option.splits sum.splits)
qed

lemma directory_loop_prd_untouched:
  assumes "excluded p" and "\<not> excluded path"
    and "Request (contents_request owner repo p token) \<notin> set w"
  shows "Request (contents_request owner repo p token) \<notin>
           set (snd (directory_loop_prd e semaphore owner repo path token indent w))"
proof -
  let ?ev = "Request (contents_request owner repo p token)"
  let ?fetch = "\<lambda>q. fetch_repo_content_prd (recursion_limit e) e owner repo q token"
  have fetch: "\<And>q w. \<not> excluded q \<Longrightarrow> ?ev \<notin> set w \<Longrightarrow> ?ev \<notin> set (snd (?fetch q w))"
    using assms(1) by (intro fetch_repo_content_prd_untouched) (auto dest: contents_request_inj)
  obtain r w1 where f: "?fetch path w = (r, w1)" by (cases "?fetch path w")
  have w1: "?ev \<notin> set w1" using fetch [OF assms(2,3)] f by simp
  show ?thesis
  proof (cases "\<exists>items. r = Some (Inr (Listing items))")
    case False
    then show ?thesis
      using f w1 by (auto simp add: directory_loop_prd_def split: option.splits sum.splits json.splits)
  next
    case True
    then obtain items where items: "r = Some (Inr (Listing items))" by blast
    have "?ev \<notin> set (snd (walk_items_prd ?fetch e semaphore indent items [] [] w1))"
      using fetch w1 by (intro walk_items_prd_untouched) auto
    then show ?thesis
      using f items by (simp add: directory_loop_prd_def)
  qed
qed

lemma directory_loop_prd_tasks:
  "list_all (\<lambda>tk. \<not> excluded (fst tk))
     (snd (fst (directory_loop_prd e semaphore owner repo path token indent w)))"
proof -
  let ?fetch = "\<lambda>q. fetch_repo_content_prd (recursion_limit e) e owner repo q token"
  have "\<And>items w1. list_all (\<lambda>tk. \<not> excluded (fst tk))
          (snd (fst (walk_items_prd ?fetch e semaphore indent items [] [] w1)))"
    by (rule walk_items_prd_tasks) simp
  then show ?thesis
    by (auto simp add: directory_loop_prd_def split: prod.splits option.splits sum.splits json.splits)
qed

lemma invoked_not_excluded:
  assumes "invoked owner repo token root tk" and "\<not> excluded (fst root)"
  shows "\<not> excluded (fst tk)"
  using assms
proof (induction rule: invoked.induct)
  case first
  then show ?case by simp
next
  case (created parent child e semaphore w)
  from directory_loop_prd_tasks [of e semaphore owner repo "fst parent" token "snd parent" w]
    created.hyps(2)
  show ?case by (auto simp add: list_all_iff)
qed

lemma walk_log_prd_untouched:
  assumes "walk_log_prd owner repo token root w" and "\<not> excluded (fst root)" and "excluded p"
  shows "Request (contents_request owner repo p token) \<notin> set w"
  using assms
proof (induction rule: walk_log_prd.induct)
  case nothing_sent
  then show ?case by simp
next
  case (sent w tk ev e semaphore w0)
  have "\<not> excluded (fst tk)"
    using sent.hyps(2) sent.prems(1) by (rule invoked_not_excluded)
  then have "ev \<noteq> Request (contents_request owner repo p token)"
    using directory_loop_prd_untouched [of p "fst tk" owner repo token w0 e semaphore "snd tk"]
      sent.hyps(3,4) sent.prems(2) by auto
  then show ?case using sent by simp
qed

lemma run_tasks_untouched:
  assumes "\<And>tk w. tk \<in> set tasks \<Longrightarrow> ev \<notin> set w \<Longrightarrow> ev \<notin> set (snd (run tk w))"
    and "ev \<notin> set w"
  shows "ev \<notin> set (snd (run_tasks run tasks order completed w))"
  using assms(2)
proof (induction order arbitrary: completed w)
  case Nil
  then show ?case by simp
next
  case (Cons h order)
  show ?case
  proof (cases "h < length tasks \<and> completed h = None")
    case True
    obtain r w1 where r: "run (tasks ! h) w = (r, w1)" by (cases "run (tasks ! h) w")
    from True have "tasks ! h \<in> set tasks" by simp
    with assms(1) [of "tasks ! h" w] Cons.prems r have "ev \<notin> set w1" by simp
    then have "ev \<notin> set (snd (run_tasks run tasks order (completed(h \<mapsto> r)) w1))"
      by (rule Cons.IH)
    with True r show ?thesis by simp
  next
    case False
    then show ?thesis using Cons by auto
  qed
qed

text \<open>
  The same for the log of the model of the whole production function, in which the tasks
  run one after the other.
\<close>

lemma build_directory_tree_prd_untouched:
  assumes "excluded p"
  shows "\<not> excluded path \<Longrightarrow> Request (contents_request owner repo p token) \<notin> set w \<Longrightarrow>
         Request (contents_request owner repo p token) \<notin>
           set (snd (build_directory_tree_prd fuel e sched semaphore owner repo path token indent w))"
proof (induction fuel arbitrary: path indent w)
  case 0
  then show ?case by simp
next
  case (Suc fuel)
  let ?ev = "Request (contents_request owner repo p token)"
  let ?run = "\<lambda>(p, i). build_directory_tree_prd fuel e sched semaphore owner repo p token i"
  obtain r tasks w2 where
    loop: "directory_loop_prd e semaphore owner repo path token indent w = ((r, tasks), w2)"
    by (cases "directory_loop_prd e semaphore owner repo path token indent w") auto
  have w2: "?ev \<notin> set w2"
    using directory_loop_prd_untouched [OF assms Suc.prems, of e semaphore indent] loop by simp
  have tasks: "list_all (\<lambda>tk. \<not> excluded (fst tk)) tasks"
    using directory_loop_prd_tasks [of e semaphore owner repo path token indent w] loop by simp
  have "?ev \<notin> set (snd (run_tasks ?run tasks (sched w2 (length tasks)) Map.empty w2))"
  proof (rule run_tasks_untouched [OF _ w2])
    fix tk w' assume "tk \<in> set tasks" and "?ev \<notin> set w'"
    then show "?ev \<notin> set (snd (?run tk w'))"
      using tasks Suc.IH [of "fst tk" w' "snd tk"]
      by (auto simp add: list_all_iff split: prod.splits)
  qed
  then show ?case
    using loop by (auto split: prod.splits option.splits sum.splits)
qed

text \<open>
  Claim C6. An entry whose path holds the segment \<^verbatim>\<open>.github\<close> is skipped entirely, in both
  versions.
  \<^item> The loop over a listing gives the same tree text, the same file fetches or tasks and
    the same log as the loop over the listing without such entries: no tree line, no
    recursion, no fetch.
  \<^item> Simple version: a walk that does not itself start at an excluded path sends no
    request for any path that holds the segment, whatever the session answers.
  \<^item> Production version, where the walks of the sub-directories are concurrent tasks: of
    a walk that does not itself start at an excluded path, no invocation is ever for an
    excluded path, and no invocation sends a request for a path that holds the segment,
    whatever the session answers to it and whatever the other tasks do meanwhile
    (\<open>e\<close>, \<open>semaphore\<close> and \<open>w\<close> are arbitrary), also when its loop raises or does not end;
    so no log of the walk, under any event loop, ever holds such a request.
  Paths of descendants of an excluded entry hold the segment too.
\<close>

theorem excluded_entries_skipped:
  "walk_items walk indent items tree_str file_fetch_tasks w =
     walk_items walk indent (filter (\<lambda>it. \<not> excluded (item_path it)) items)
       tree_str file_fetch_tasks w \<and>
   walk_items_prd fetch e semaphore indent items tree_str tasks w =
     walk_items_prd fetch e semaphore indent (filter (\<lambda>it. \<not> excluded (item_path it)) items)
       tree_str tasks w \<and>
   (excluded p \<and> \<not> excluded path \<and> Request (contents_request owner repo p token) \<notin> set w \<longrightarrow>
      Request (contents_request owner repo p token) \<notin>
        set (snd (build_directory_tree fuel e owner repo path token indent w))) \<and>
   (\<not> excluded path \<and> invoked owner repo token (path, indent) tk \<longrightarrow>
      \<not> excluded (fst tk) \<and>
      (excluded p \<and> Request (contents_request owner repo p token) \<notin> set w \<longrightarrow>
         Request (contents_request owner repo p token) \<notin>
           set (snd (directory_loop_prd e semaphore owner repo (fst tk) token (snd tk) w)))) \<and>
   (excluded p \<and> \<not> excluded path \<and> walk_log_prd owner repo token (path, indent) w' \<longrightarrow>
      Request (contents_request owner repo p token) \<notin> set w')"
proof (intro conjI impI)
  show "walk_items walk indent items tree_str file_fetch_tasks w =
     walk_items walk indent (filter (\<lambda>it. \<not> excluded (item_path it)) items)
       tree_str file_fetch_tasks w"
    by (rule walk_items_skips_excluded)
  show "walk_items_prd fetch e semaphore indent items tree_str tasks w =
     walk_items_prd fetch e semaphore indent (filter (\<lambda>it. \<not> excluded (item_path it)) items)
       tree_str tasks w"
    by (rule walk_items_prd_skips_excluded)
next
  assume h: "excluded p \<and> \<not> excluded path \<and>
             Request (contents_request owner repo p token) \<notin> set w"
  then show "Request (contents_request owner repo p token) \<notin>
        set (snd (build_directory_tree fuel e owner repo path token indent w))"
    by (intro build_directory_tree_untouched) auto
next
  assume h: "\<not> excluded path \<and> invoked owner repo token (path, indent) tk"
  then show tk: "\<not> excluded (fst tk)"
    using invoked_not_excluded [of owner repo token "(path, indent)" tk] by simp
  assume "excluded p \<and> Request (contents_request owner repo p token) \<notin> set w"
  with tk show "Request (contents_request owner repo p token) \<notin>
        set (snd (directory_loop_prd e semaphore owner repo (fst tk) token (snd tk) w))"
    by (intro directory_loop_prd_untouched) auto
next
  assume "excluded p \<and> \<not> excluded path \<and> walk_log_prd owner repo token (path, indent) w'"
  then show "Request (contents_request owner repo p token) \<notin> set w'"
    using walk_log_prd_untouched [of owner repo token "(path, indent)" w' p] by simp
qed

text \<open>
  Claim C6 on a repository with a \<^verbatim>\<open>.github\<close> directory beside a directory \<^verbatim>\<open>src\<close>: the
  simple walk requests neither the excluded directory nor the file in it; in the
  production version the task of \<^verbatim>\<open>src\<close> is among the invocations of the walk and sends
  no request for the file in the excluded directory, whose entry its listing holds; the
  log that holds the request of the root listing and then the one of the listing of
  \<^verbatim>\<open>src\<close> is a log of the walk; the tree texts hold no line of the excluded entries.
\<close>

theorem excluded_entries_skipped_witness:
  "Request (contents_request ''o'' ''r'' ''.github'' None) \<notin>
     set (snd (build_directory_tree 3 (example_env (static_get with_github_dir))
                 ''o'' ''r'' [] None 0 [])) \<and>
   invoked ''o'' ''r'' None ([], 0) (''src'', 1) \<and>
   Request (contents_request ''o'' ''r'' ''.github/ci.md'' None) \<notin>
     set (snd (directory_loop_prd (example_env (static_get with_github_dir)) 100
                 ''o'' ''r'' ''src'' None 1 [])) \<and>
   walk_log_prd ''o'' ''r'' None ([], 0)
     [Request (contents_request ''o'' ''r'' [] None),
      Request (contents_request ''o'' ''r'' ''src'' None)] \<and>
   Request (contents_request ''o'' ''r'' ''.github/ci.md'' None) \<notin>
     set [Request (contents_request ''o'' ''r'' [] None),
          Request (contents_request ''o'' ''r'' ''src'' None)] \<and>
   fst (build_directory_tree 3 (example_env (static_get with_github_dir))
          ''o'' ''r'' [] None 0 []) = Some (Inr (''[src/]\<newline>a.txt\<newline>'', [])) \<and>
   fst (build_directory_tree_prd 3 (example_env (static_get with_github_dir)) in_order 100
          ''o'' ''r'' [] None 0 []) = Some (Inr ''[src/]\<newline>a.txt\<newline>'')"
proof -
  let ?e = "example_env (static_get with_github_dir)"
  let ?root = "Request (contents_request ''o'' ''r'' [] None)"
  let ?src = "Request (contents_request ''o'' ''r'' ''src'' None)"
  have h1: "excluded ''.github'' \<and> \<not> excluded [] \<and>
            Request (contents_request ''o'' ''r'' ''.github'' None) \<notin> set []"
    by code_simp
  have m: "(''src'', 1) \<in> set (snd (fst (directory_loop_prd ?e 100 ''o'' ''r''
                                           (fst ([], 0 :: nat)) None (snd ([], 0 :: nat)) [])))"
    by code_simp
  have i: "invoked ''o'' ''r'' None ([], 0) (''src'', 1)"
    by (rule invoked.created [OF invoked.first m])
  have ne: "\<not> excluded []"
    by code_simp
  have h2: "\<not> excluded [] \<and> invoked ''o'' ''r'' None ([], 0) (''src'', 1)"
    by (intro conjI ne i)
  have ex: "excluded ''.github/ci.md''"
    by code_simp
  have h3: "excluded ''.github/ci.md'' \<and>
            Request (contents_request ''o'' ''r'' ''.github/ci.md'' None) \<notin> set []"
    using ex by simp
  have s1: "?root \<in> set (snd (directory_loop_prd ?e 100 ''o'' ''r''
                                 (fst ([], 0 :: nat)) None (snd ([], 0 :: nat)) []))"
    by code_simp
  have s2: "?src \<in> set (snd (directory_loop_prd ?e 100 ''o'' ''r''
                                (fst (''src'', 1 :: nat)) None (snd (''src'', 1 :: nat)) []))"
    by code_simp
  have l1: "walk_log_prd ''o'' ''r'' None ([], 0) ([] @ [?root])"
    by (rule walk_log_prd.sent [OF walk_log_prd.nothing_sent invoked.first s1]) simp
  have l2: "walk_log_prd ''o'' ''r'' None ([], 0) (([] @ [?root]) @ [?src])"
    by (rule walk_log_prd.sent [OF l1 i s2]) simp
  have l: "walk_log_prd ''o'' ''r'' None ([], 0) [?root, ?src]"
    using l2 by simp
  have h4: "excluded ''.github/ci.md'' \<and> \<not> excluded [] \<and>
            walk_log_prd ''o'' ''r'' None ([], 0) [?root, ?src]"
    by (intro conjI ex ne l)
  note a = excluded_entries_skipped [where p = "''.github''" and path = "[]" and w = "[]"
      and owner = "''o''" and repo = "''r''" and token = None and fuel = 3 and e = ?e
      and indent = 0,
      THEN conjunct2, THEN conjunct2, THEN conjunct1, THEN mp, OF h1]
  note b = excluded_entries_skipped [where p = "''.github/ci.md''" and path = "[]" and w = "[]"
      and owner = "''o''" and repo = "''r''" and token = None and e = ?e
      and indent = 0 and semaphore = 100 and tk = "(''src'', 1)",
      THEN conjunct2, THEN conjunct2, THEN conjunct2, THEN conjunct1, THEN mp, OF h2,
      THEN conjunct2, THEN mp, OF h3]
  have b': "Request (contents_request ''o'' ''r'' ''.github/ci.md'' None) \<notin>
     set (snd (directory_loop_prd ?e 100 ''o'' ''r'' ''src'' None 1 []))"
    using b by simp
  note g = excluded_entries_skipped [where p = "''.github/ci.md''" and path = "[]"
      and owner = "''o''" and repo = "''r''" and token = None and indent = 0
      and w' = "[?root, ?src]",
      THEN conjunct2, THEN conjunct2, THEN conjunct2, THEN conjunct2, THEN mp, OF h4]
  have c: "fst (build_directory_tree 3 ?e ''o'' ''r'' [] None 0 []) =
             Some (Inr (''[src/]\<newline>a.txt\<newline>'', []))"
    by code_simp
  have d: "fst (build_directory_tree_prd 3 ?e in_order 100 ''o'' ''r'' [] None 0 []) =
             Some (Inr ''[src/]\<newline>a.txt\<newline>'')"
    by code_simp
  show ?thesis by (intro conjI a i b' l g c d)
qed

subsection \<open>Independence of the completion order\<close>

lemma session_get_stateless:
  assumes "stateless e"
  shows "fst (session_get e r w1) = fst (session_get e r w2)"
  using assms by (simp add: session_get_def stateless_def)

lemma fetch_attempt_prd_stateless:
  assumes "stateless e" and "\<And>w w'. fst (again w) = fst (again w')"
  shows "fst (fetch_attempt_prd again e r w1) = fst (fetch_attempt_prd again e r w2)"
proof -
  have g: "http_get e r (count_list w1 (Request r)) = http_get e r (count_list w2 (Request r))"
    using assms(1) by (simp add: stateless_def)
  show ?thesis
    unfolding fetch_attempt_prd_def session_get_def
    by (simp add: g assms(2) split: http_outcome.splits option.splits sum.splits)
qed

lemma retry_loop_stateless:
  assumes "\<And>w w'. fst (target w) = fst (target w')"
  shows "fst (retry_loop retried k target w1) = fst (retry_loop retried k target w2)"
proof (induction k arbitrary: w1 w2)
  case 0
  then show ?case by (simp add: assms)
next
  case (Suc k)
  obtain r a where a: "target w1 = (r, a)" by (cases "target w1")
  obtain r' b where b: "target w2 = (r', b)" by (cases "target w2")
  from assms [of w1 w2] a b have "r' = r" by simp
  with a b Suc.IH [of "a @ [Backoff]" "b @ [Backoff]"] show ?case
    by (auto split: option.splits sum.splits)
qed

lemma fetch_repo_content_prd_stateless:
  assumes "stateless e"
  shows "fst (fetch_repo_content_prd fuel e owner repo path token w1) =
         fst (fetch_repo_content_prd fuel e owner repo path token w2)"
proof (induction fuel arbitrary: w1 w2)
  case 0
  then show ?case by simp
next
  case (Suc fuel)
  show ?case
    unfolding fetch_repo_content_prd.simps on_exception_def
    by (intro retry_loop_stateless fetch_attempt_prd_stateless assms Suc.IH)
qed

lemma walk_items_prd_stateless:
  assumes "\<And>q w w'. fst (fetch q w) = fst (fetch q w')"
  shows "fst (walk_items_prd fetch e semaphore indent items tree_str tasks w1) =
         fst (walk_items_prd fetch e semaphore indent items tree_str tasks w2)"
proof (induction items arbitrary: tree_str tasks w1 w2)
  case Nil
  then show ?case by simp
next
  case (Cons it items)
  obtain r a where a: "fetch (item_path it) w1 = (r, a)" by (cases "fetch (item_path it) w1")
  obtain r' b where b: "fetch (item_path it) w2 = (r', b)" by (cases "fetch (item_path it) w2")
  from assms [of "item_path it" w1 w2] a b have "r' = r" by simp
  with a b Cons.IH show ?case
    by (auto split: option.splits sum.splits)
qed

lemma run_tasks_completed:
  assumes "\<And>tk w w'. fst (run tk w) = fst (run tk w')"
  shows "fst (run_tasks run tasks order completed w) h =
           (case completed h of
              Some r \<Rightarrow> Some r
            | None \<Rightarrow> if h \<in> set order \<and> h < length tasks
                      then Some (fst (run (tasks ! h) [])) else None)"
proof (induction order arbitrary: completed w)
  case Nil
  then show ?case by (simp split: option.splits)
next
  case (Cons k order)
  show ?case
  proof (cases "k < length tasks \<and> completed k = None")
    case True
    obtain r w1 where r: "run (tasks ! k) w = (r, w1)" by (cases "run (tasks ! k) w")
    from assms [of "tasks ! k" w "[]"] r have r': "fst (run (tasks ! k) []) = r" by simp
    have "fst (run_tasks run tasks (k # order) completed w) h =
          fst (run_tasks run tasks order (completed(k \<mapsto> r)) w1) h"
      using True r by simp
    also have "\<dots> = (case (completed(k \<mapsto> r)) h of
              Some r \<Rightarrow> Some r
            | None \<Rightarrow> if h \<in> set order \<and> h < length tasks
                      then Some (fst (run (tasks ! h) [])) else None)"
      by (rule Cons.IH)
    finally show ?thesis
      using True r' by (auto split: option.splits)
  next
    case False
    have "fst (run_tasks run tasks (k # order) completed w) h =
          fst (run_tasks run tasks order completed w) h"
      using False by auto
    also have "\<dots> = (case completed h of
              Some r \<Rightarrow> Some r
            | None \<Rightarrow> if h \<in> set order \<and> h < length tasks
                      then Some (fst (run (tasks ! h) [])) else None)"
      by (rule Cons.IH)
    finally show ?thesis
      using False by (auto split: option.splits)
  qed
qed

lemma await_tasks_cong:
  assumes "\<And>h. h \<in> set handles \<Longrightarrow> m1 h = m2 h"
  shows "await_tasks m1 handles tree_str = await_tasks m2 handles tree_str"
  using assms
  by (induction handles arbitrary: tree_str) (auto split: option.splits sum.splits)

lemma completes_all_set:
  assumes "completes_all sched"
  shows "set (sched w n) = {0..<n}"
proof -
  from assms have "mset (sched w n) = mset [0..<n]" by (simp add: completes_all_def)
  then have "set (sched w n) = set [0..<n]" by (rule mset_eq_setD)
  then show ?thesis by simp
qed

lemma join_independent:
  assumes "\<And>tk w w'. fst (run1 tk w) = fst (run2 tk w')"
    and "completes_all sched1" and "completes_all sched2"
  shows "await_tasks (fst (run_tasks run1 tasks (sched1 w1 (length tasks)) Map.empty w1))
           [0..<length tasks] tree_str =
         await_tasks (fst (run_tasks run2 tasks (sched2 w2 (length tasks)) Map.empty w2))
           [0..<length tasks] tree_str"
proof (rule await_tasks_cong)
  fix h assume "h \<in> set [0..<length tasks]"
  then have h: "h < length tasks" by simp
  have i1: "\<And>tk w w'. fst (run1 tk w) = fst (run1 tk w')"
    using assms(1) by metis
  have i2: "\<And>tk w w'. fst (run2 tk w) = fst (run2 tk w')"
    using assms(1) by metis
  have "fst (run_tasks run1 tasks (sched1 w1 (length tasks)) Map.empty w1) h =
          Some (fst (run1 (tasks ! h) []))"
    using h completes_all_set [OF assms(2)] by (simp add: run_tasks_completed [OF i1])
  moreover have "fst (run_tasks run2 tasks (sched2 w2 (length tasks)) Map.empty w2) h =
          Some (fst (run2 (tasks ! h) []))"
    using h completes_all_set [OF assms(3)] by (simp add: run_tasks_completed [OF i2])
  ultimately show "fst (run_tasks run1 tasks (sched1 w1 (length tasks)) Map.empty w1) h =
          fst (run_tasks run2 tasks (sched2 w2 (length tasks)) Map.empty w2) h"
    using assms(1) [of "tasks ! h" "[]" "[]"] by simp
qed

lemma directory_loop_prd_stateless:
  assumes "stateless e"
  shows "fst (directory_loop_prd e semaphore owner repo path token indent w1) =
         fst (directory_loop_prd e semaphore owner repo path token indent w2)"
proof -
  let ?fetch = "\<lambda>q. fetch_repo_content_prd (recursion_limit e) e owner repo q token"
  have fetch: "\<And>q w w'. fst (?fetch q w) = fst (?fetch q w')"
    by (rule fetch_repo_content_prd_stateless [OF assms])
  obtain r a where a: "?fetch path w1 = (r, a)" by (cases "?fetch path w1")
  obtain r' b where b: "?fetch path w2 = (r', b)" by (cases "?fetch path w2")
  from fetch [of path w1 w2] a b have rr: "r' = r" by simp
  show ?thesis
  proof (cases "\<exists>items. r = Some (Inr (Listing items))")
    case False
    then show ?thesis
      using a b rr
      by (auto simp add: directory_loop_prd_def split: option.splits sum.splits json.splits)
  next
    case True
    then obtain items where items: "r = Some (Inr (Listing items))" by blast
    from walk_items_prd_stateless [of ?fetch e semaphore indent items "[]" "[]" a b, OF fetch]
    show ?thesis
      using a b rr items by (simp add: directory_loop_prd_def)
  qed
qed

lemma build_directory_tree_prd_independent:
  assumes "stateless e" and "completes_all sched1" and "completes_all sched2"
  shows "fst (build_directory_tree_prd fuel e sched1 semaphore owner repo path token indent w1) =
         fst (build_directory_tree_prd fuel e sched2 semaphore owner repo path token indent w2)"
proof (induction fuel arbitrary: path indent w1 w2)
  case 0
  then show ?case by simp
next
  case (Suc fuel)
  let ?run1 = "\<lambda>(p, i). build_directory_tree_prd fuel e sched1 semaphore owner repo p token i"
  let ?run2 = "\<lambda>(p, i). build_directory_tree_prd fuel e sched2 semaphore owner repo p token i"
  obtain r tasks a where
    a: "directory_loop_prd e semaphore owner repo path token indent w1 = ((r, tasks), a)"
    by (cases "directory_loop_prd e semaphore owner repo path token indent w1") auto
  obtain r' tasks' b where
    b: "directory_loop_prd e semaphore owner repo path token indent w2 = ((r', tasks'), b)"
    by (cases "directory_loop_prd e semaphore owner repo path token indent w2") auto
  from directory_loop_prd_stateless [OF assms(1), of semaphore owner repo path token indent w1 w2]
    a b have rr: "r' = r" "tasks' = tasks" by simp_all
  have run: "\<And>tk w w'. fst (?run1 tk w) = fst (?run2 tk w')"
    using Suc.IH by (auto split: prod.splits)
  have "await_tasks (fst (run_tasks ?run1 tasks (sched1 a (length tasks)) Map.empty a))
          [0..<length tasks] tree_str =
        await_tasks (fst (run_tasks ?run2 tasks (sched2 b (length tasks)) Map.empty b))
          [0..<length tasks] tree_str" for tree_str
    by (rule join_independent [OF run assms(2,3)])
  then show ?case
    using a b rr by (simp add: split_beta split: option.splits sum.splits)
qed

lemma rate_limit_attempt_stateless:
  assumes "stateless e"
  shows "fst (rate_limit_attempt e t w1) = fst (rate_limit_attempt e t w2)"
proof -
  have g: "http_get e (rate_limit_request t) (count_list w1 (Request (rate_limit_request t))) =
           http_get e (rate_limit_request t) (count_list w2 (Request (rate_limit_request t)))"
    using assms by (simp add: stateless_def)
  show ?thesis
    unfolding rate_limit_attempt_def session_get_def
    by (simp add: g split: http_outcome.splits sum.splits json.splits)
qed

lemma fetch_rate_limit_status_stateless:
  assumes "stateless e"
  shows "fst (fetch_rate_limit_status e t w1) = fst (fetch_rate_limit_status e t w2)"
  unfolding fetch_rate_limit_status_def on_exception_def
  by (intro retry_loop_stateless rate_limit_attempt_stateless assms)

lemma session_get_clock: "session_get (e\<lparr>time_now := t\<rparr>) = session_get e"
  by (intro ext) (simp add: session_get_def)

lemma fetch_attempt_prd_clock:
  "fetch_attempt_prd again (e\<lparr>time_now := t\<rparr>) = fetch_attempt_prd again e"
  by (intro ext) (simp add: fetch_attempt_prd_def session_get_clock)

lemma fetch_repo_content_prd_clock:
  "fetch_repo_content_prd fuel (e\<lparr>time_now := t\<rparr>) = fetch_repo_content_prd fuel e"
proof (induction fuel)
  case 0
  show ?case by (intro ext) (simp add: recursion_error_def)
next
  case (Suc fuel)
  show ?case by (intro ext) (simp add: Suc fetch_attempt_prd_clock)
qed

lemma get_file_content_clock: "get_file_content (e\<lparr>time_now := t\<rparr>) = get_file_content e"
  by (intro ext) (simp add: get_file_content_def split: json.splits)

lemma walk_items_prd_clock:
  "walk_items_prd fetch (e\<lparr>time_now := t\<rparr>) semaphore indent items tree_str tasks w =
   walk_items_prd fetch e semaphore indent items tree_str tasks w"
  by (induction items arbitrary: tree_str tasks w)
     (auto simp add: get_file_content_clock split: prod.splits option.splits sum.splits)

lemma directory_loop_prd_clock:
  "directory_loop_prd (e\<lparr>time_now := t\<rparr>) = directory_loop_prd e"
  by (intro ext)
     (simp add: directory_loop_prd_def fetch_repo_content_prd_clock walk_items_prd_clock
        cong: prod.case_cong option.case_cong sum.case_cong json.case_cong)

lemma build_directory_tree_prd_clock:
  "build_directory_tree_prd fuel (e\<lparr>time_now := t\<rparr>) = build_directory_tree_prd fuel e"
proof (induction fuel)
  case 0
  show ?case by (intro ext) simp
next
  case (Suc fuel)
  show ?case
    by (intro ext) (simp add: Suc directory_loop_prd_clock)
qed

lemma tree_step_prd_clock:
  "tree_step_prd fuel (e\<lparr>time_now := t\<rparr>) = tree_step_prd fuel e"
  by (intro ext) (simp add: tree_step_prd_def build_directory_tree_prd_clock split: option.splits)

lemma parse_github_url_clock: "parse_github_url (e\<lparr>time_now := t\<rparr>) = parse_github_url e"
  by (intro ext) (simp add: parse_github_url_def split: sum.splits)

lemma rate_limit_attempt_clock:
  "rate_limit_attempt (e\<lparr>time_now := t\<rparr>) = rate_limit_attempt e"
  by (intro ext) (simp add: rate_limit_attempt_def session_get_clock)

lemma fetch_rate_limit_status_clock:
  "fetch_rate_limit_status (e\<lparr>time_now := t\<rparr>) = fetch_rate_limit_status e"
  by (intro ext) (simp add: fetch_rate_limit_status_def rate_limit_attempt_clock)

lemma readme_step_prd_stateless:
  assumes "stateless e"
  shows "fst (readme_step_prd (e\<lparr>time_now := t1\<rparr>) owner repo token w1) =
         fst (readme_step_prd (e\<lparr>time_now := t2\<rparr>) owner repo token w2)"
proof (cases token)
  case None
  then show ?thesis by (simp add: readme_step_prd_def)
next
  case (Some t)
  let ?fetch = "fetch_repo_content_prd (recursion_limit e) e owner repo ''README.md'' (Some t)"
  let ?readme = "\<lambda>x. case ?fetch x of
             (None, w3) \<Rightarrow> ((Some (100::nat), None), w3)
           | (Some (Inl xa), w3) \<Rightarrow> ((Some 100, Some (Inl xa)), w3)
           | (Some (Inr readme_info), w3) \<Rightarrow>
               ((Some 100, Some (get_file_content e readme_info)), w3)"
  obtain r a where a: "fetch_rate_limit_status e t w1 = (r, a)"
    by (cases "fetch_rate_limit_status e t w1")
  obtain r' b where b: "fetch_rate_limit_status e t w2 = (r', b)"
    by (cases "fetch_rate_limit_status e t w2")
  from fetch_rate_limit_status_stateless [OF assms, of t w1 w2] a b have rr: "r' = r" by simp
  have key: "fst (?readme x) = fst (?readme y)" for x y
  proof -
    obtain r2 a2 where a2: "?fetch x = (r2, a2)" by (cases "?fetch x")
    obtain r2' b2 where b2: "?fetch y = (r2', b2)" by (cases "?fetch y")
    from fetch_repo_content_prd_stateless
           [OF assms, of "recursion_limit e" owner repo "''README.md''" "Some t" x y]
      a2 b2 have "r2' = r2" by simp
    then show ?thesis
      using a2 b2 by (simp split: option.splits sum.splits)
  qed
  have unfold: "readme_step_prd (e\<lparr>time_now := c\<rparr>) owner repo token w =
      (case fetch_rate_limit_status e t w of
         (None, w1) \<Rightarrow> ((None, None), w1)
       | (Some (Inl x), w1) \<Rightarrow> ((None, Some (Inl x)), w1)
       | (Some (Inr rt), w1) \<Rightarrow>
           if remaining rt < 100 \<and> 0 < reset rt \<and> float_overflow (reset rt)
           then ((None, Some (Inl too_large)), w1)
           else ?readme (if remaining rt < 100 \<and> reset rt > c
                         then w1 @ [Sleep (reset rt - c)] else w1))" for c w
    using Some
    by (auto simp add: readme_step_prd_def Let_def fetch_rate_limit_status_clock
          fetch_repo_content_prd_clock get_file_content_clock
          split: prod.splits option.splits sum.splits)
  show ?thesis
  proof (cases "\<exists>rt. r = Some (Inr rt)")
    case False
    then show ?thesis
      using a b rr unfolding unfold by (auto split: option.splits sum.splits)
  next
    case True
    then obtain rt where rt: "r = Some (Inr rt)" by blast
    show ?thesis
      unfolding unfold using a b rr rt by (simp add: key)
  qed
qed

lemma tree_step_prd_independent:
  assumes "stateless e" and "completes_all sched1" and "completes_all sched2"
  shows "fst (tree_step_prd fuel e sched1 semaphore owner repo token w1) =
         fst (tree_step_prd fuel e sched2 semaphore owner repo token w2)"
  using build_directory_tree_prd_independent [OF assms]
  by (simp add: tree_step_prd_def split: option.splits)

lemma retrieve_prd_independent:
  assumes "stateless e" and "completes_all sched1" and "completes_all sched2"
  shows "fst (retrieve_github_repo_info_prd fuel (e\<lparr>time_now := t1\<rparr>) sched1 u token w1) =
         fst (retrieve_github_repo_info_prd fuel (e\<lparr>time_now := t2\<rparr>) sched2 u token w2)"
proof (cases "parse_github_url e u")
  case (Inl x)
  then show ?thesis by (simp add: retrieve_github_repo_info_prd_def parse_github_url_clock)
next
  case (Inr pr)
  obtain owner repo where pr: "pr = (owner, repo)" by (cases pr)
  obtain s r a where
    a: "readme_step_prd (e\<lparr>time_now := t1\<rparr>) owner repo token w1 = ((s, r), a)"
    by (cases "readme_step_prd (e\<lparr>time_now := t1\<rparr>) owner repo token w1") auto
  obtain s' r' b where
    b: "readme_step_prd (e\<lparr>time_now := t2\<rparr>) owner repo token w2 = ((s', r'), b)"
    by (cases "readme_step_prd (e\<lparr>time_now := t2\<rparr>) owner repo token w2") auto
  from readme_step_prd_stateless [OF assms(1), of t1 owner repo token w1 t2 w2] a b
  have eq: "s' = s" "r' = r" by simp_all
  obtain x1 a2 where a2: "tree_step_prd fuel e sched1 s owner repo token a = (x1, a2)"
    by (cases "tree_step_prd fuel e sched1 s owner repo token a")
  obtain x2 b2 where b2: "tree_step_prd fuel e sched2 s owner repo token b = (x2, b2)"
    by (cases "tree_step_prd fuel e sched2 s owner repo token b")
  from tree_step_prd_independent [OF assms, of fuel s owner repo token a b] a2 b2
  have "x2 = x1" by simp
  then show ?thesis
    using Inr pr a b eq a2 b2
    by (simp add: retrieve_github_repo_info_prd_def parse_github_url_clock tree_step_prd_clock
          split: option.splits)
qed

text \<open>
  Claim C9. For a fixed set of remote responses (a stateless session) the output does not
  depend on the order in which the event loop completes the tasks of the sub-directories:
  for any two event loops that complete every task, and any two starting logs, the
  production \<open>build_directory_tree\<close> gives the same result (the same text, the same
  exception or no result alike), because the loop over \<^verbatim>\<open>tasks\<close> reads the results by
  handle, in the order of creation. The same holds for the document of
  \<open>retrieve_github_repo_info\<close>, also when the two runs read different clocks.
\<close>

theorem output_independent_of_completion_order:
  assumes "stateless e" and "completes_all sched1" and "completes_all sched2"
  shows "fst (build_directory_tree_prd fuel e sched1 semaphore owner repo path token indent w1) =
         fst (build_directory_tree_prd fuel e sched2 semaphore owner repo path token indent w2) \<and>
         fst (retrieve_github_repo_info_prd fuel (e\<lparr>time_now := t1\<rparr>) sched1 u token w1) =
         fst (retrieve_github_repo_info_prd fuel (e\<lparr>time_now := t2\<rparr>) sched2 u token w2)"
proof
  show "fst (build_directory_tree_prd fuel e sched1 semaphore owner repo path token indent w1) =
        fst (build_directory_tree_prd fuel e sched2 semaphore owner repo path token indent w2)"
    using assms by (rule build_directory_tree_prd_independent)
  show "fst (retrieve_github_repo_info_prd fuel (e\<lparr>time_now := t1\<rparr>) sched1 u token w1) =
        fst (retrieve_github_repo_info_prd fuel (e\<lparr>time_now := t2\<rparr>) sched2 u token w2)"
    using assms by (rule retrieve_prd_independent)
qed

lemma static_get_stateless: "stateless (example_env (static_get pages))"
  by (simp add: stateless_def example_env_def static_get_def)

lemma in_order_completes_all: "completes_all in_order"
  by (simp add: completes_all_def in_order_def)

lemma last_first_completes_all: "completes_all last_first"
  by (simp add: completes_all_def last_first_def)

text \<open>
  Claim C9 on a repository with two sub-directories, under the event loop that completes
  tasks in creation order and the one that completes the last task first (two different
  orders for the two tasks of the root): the tree text and the document are the same.
\<close>

theorem output_independent_of_completion_order_witness:
  "fst (build_directory_tree_prd 3 (example_env (static_get two_dirs)) in_order 100
          ''o'' ''r'' [] None 0 []) =
   fst (build_directory_tree_prd 3 (example_env (static_get two_dirs)) last_first 100
          ''o'' ''r'' [] None 0 []) \<and>
   fst (retrieve_github_repo_info_prd 3
          ((example_env (static_get (rate_limit_page # two_dirs)))\<lparr>time_now := 0\<rparr>) in_order
          ''https://github.com/o/r'' (Some ''t'') []) =
   fst (retrieve_github_repo_info_prd 3
          ((example_env (static_get (rate_limit_page # two_dirs)))\<lparr>time_now := 1000\<rparr>) last_first
          ''https://github.com/o/r'' (Some ''t'') []) \<and>
   fst (build_directory_tree_prd 3 (example_env (static_get two_dirs)) last_first 100
          ''o'' ''r'' [] None 0 []) =
     Some (Inr ''[x/]\<newline>[y/]\<newline>    1.txt\<newline>    2.txt\<newline>'') \<and>
   in_order [Request (contents_request ''o'' ''r'' [] None)] 2 = [0, 1] \<and>
   last_first [Request (contents_request ''o'' ''r'' [] None)] 2 = [1, 0]"
proof -
  note a = output_independent_of_completion_order
      [OF static_get_stateless [of two_dirs] in_order_completes_all last_first_completes_all,
       where fuel = 3 and semaphore = 100 and owner = "''o''"
         and repo = "''r''" and path = "[]" and token = None and indent = 0 and ?w1.0 = "[]"
         and ?w2.0 = "[]", THEN conjunct1]
  note a' = output_independent_of_completion_order
      [OF static_get_stateless [of "rate_limit_page # two_dirs"]
          in_order_completes_all last_first_completes_all,
       where fuel = 3 and token = "Some ''t''" and ?w1.0 = "[]" and ?w2.0 = "[]"
         and ?t1.0 = 0 and ?t2.0 = 1000 and u = "''https://github.com/o/r''", THEN conjunct2]
  have b: "fst (build_directory_tree_prd 3 (example_env (static_get two_dirs)) last_first 100
          ''o'' ''r'' [] None 0 []) =
     Some (Inr ''[x/]\<newline>[y/]\<newline>    1.txt\<newline>    2.txt\<newline>'')"
    by code_simp
  have c: "in_order [Request (contents_request ''o'' ''r'' [] None)] 2 = [0, 1]"
    by code_simp
  have d: "last_first [Request (contents_request ''o'' ''r'' [] None)] 2 = [1, 0]"
    by code_simp
  show ?thesis by (intro conjI a a' b c d)
qed

end
